theory Spec2Isabelle
  imports Main "HOL-Library.Sublist"
begin

section \<open>The model source (the objects read through the automation interface)\<close>

text \<open>
  \<^verbatim>\<open>JSONExporter.py\<close> reads a hierarchical model through a repository object. Every
  collection of that interface is walked with \<^verbatim>\<open>for i in range(c.Count): c.GetAt(i)\<close>,
  so a collection is a list, walked front to back. Identifiers are Python integers
  (unbounded), names and type tags are strings.
\<close>

record attribute =
  AttributeID :: int
  Attribute_Name :: string
  Attribute_Type :: string
  Attribute_Default :: string

text \<open>
  A diagram object binds an element to a place on a diagram. The four coordinates are read
  with \<^verbatim>\<open>getattr(diag_object, "left", None)\<close>: an absent attribute reads as \<^verbatim>\<open>None\<close>.
\<close>

record diagram_object =
  Object_ElementID :: int
  Object_left :: "int option"
  Object_right :: "int option"
  Object_top :: "int option"
  Object_bottom :: "int option"

record diagram =
  DiagramID :: int
  Diagram_Name :: string
  DiagramObjects :: "diagram_object list"

record connector =
  ClientID :: int
  SupplierID :: int
  Connector_Type :: string
  Connector_Name :: string

record element =
  ElementID :: int
  Element_Name :: string
  Element_Type :: string
  Attributes :: "attribute list"
  ClassifierID :: int
  Element_Diagrams :: "diagram list"
  Connectors :: "connector list"
  PackageID :: int

record package =
  Package_ID :: int
  Package_Name :: string
  Package_Diagrams :: "diagram list"

text \<open>
  The repository holds finitely many elements and packages; a lookup by identifier returns
  the first object carrying that identifier, or \<^verbatim>\<open>None\<close>.
\<close>

record repository =
  Elements :: "element list"
  Packages :: "package list"

definition GetElementByID :: "repository \<Rightarrow> int \<Rightarrow> element option" where
  "GetElementByID repository i = find (\<lambda>e. ElementID e = i) (Elements repository)"

definition GetPackageByID :: "repository \<Rightarrow> int \<Rightarrow> package option" where
  "GetPackageByID repository i = find (\<lambda>p. Package_ID p = i) (Packages repository)"

section \<open>The graph that is exported\<close>

record attr_record =
  attr_id :: int
  attr_name :: string
  attr_type :: string
  attr_default :: string

record position =
  pos_left :: "int option"
  pos_right :: "int option"
  pos_top :: "int option"
  pos_bottom :: "int option"

text \<open>
  The three shapes of dictionary appended to \<^verbatim>\<open>graph["nodes"]\<close>, and the diagram
  dictionary nested in two of them. The fields are those of the dictionaries, in their order.
\<close>

datatype node =
    ElementNode int string string "attr_record list" "diagram_node list" "position option"
  | ExternalNode int string string "string option" "attr_record list"
  | PackageNode string string "diagram_node list"
and diagram_node =
    DiagramNode string string string "node list"

record edge =
  edge_from :: int
  edge_to :: int
  edge_type :: string
  edge_name :: string

record graph =
  nodes :: "node list"
  edges :: "edge list"

datatype error = AttributeError

section \<open>Python's \<^verbatim>\<open>str\<close> on integers\<close>

definition digit_char :: "nat \<Rightarrow> char" where
  "digit_char d = ''0123456789'' ! d"

fun str_nat :: "nat \<Rightarrow> string" where
  "str_nat n = (if n < 10 then [digit_char n] else str_nat (n div 10) @ [digit_char (n mod 10)])"

declare str_nat.simps [simp del]

definition str_int :: "int \<Rightarrow> string" where
  "str_int i = (if i < 0 then CHR ''-'' # str_nat (nat (- i)) else str_nat (nat i))"

section \<open>The traversal state\<close>

text \<open>
  \<^verbatim>\<open>generate_graph_from_package\<close> creates \<^verbatim>\<open>graph\<close>, \<^verbatim>\<open>visited_elements\<close>,
  \<^verbatim>\<open>visited_diagrams\<close>, \<^verbatim>\<open>edge_set\<close> and \<^verbatim>\<open>processed_elements\<close> afresh in every call;
  its inner functions mutate them. The model threads them as one record. The three sets are
  only ever tested for membership and added to, so their iteration order never matters.
\<close>

record state =
  graph_nodes :: "node list"
  graph_edges :: "edge list"
  visited_elements :: "int set"
  visited_diagrams :: "int set"
  edge_set :: "string set"
  processed_elements :: "int \<rightharpoonup> node"

definition init_state :: state where
  "init_state = \<lparr>graph_nodes = [], graph_edges = [], visited_elements = {},
                 visited_diagrams = {}, edge_set = {}, processed_elements = Map.empty\<rparr>"

section \<open>The inner functions\<close>

definition attr_record_of :: "attribute \<Rightarrow> attr_record" where
  "attr_record_of attribute =
     \<lparr>attr_id = AttributeID attribute, attr_name = Attribute_Name attribute,
      attr_type = Attribute_Type attribute, attr_default = Attribute_Default attribute\<rparr>"

definition position_of :: "diagram_object option \<Rightarrow> position option" where
  "position_of diag_object =
     (case diag_object of
        None \<Rightarrow> None
      | Some obj \<Rightarrow> Some \<lparr>pos_left = Object_left obj, pos_right = Object_right obj,
                          pos_top = Object_top obj, pos_bottom = Object_bottom obj\<rparr>)"

definition diagram_key :: "int \<Rightarrow> string" where
  "diagram_key d = ''D'' @ str_int d"

text \<open>
  \<^verbatim>\<open>process_external_classifier\<close> (lines 132 to 155). A classifier that does not resolve,
  or that is already visited, leaves the state as it is.
\<close>

definition external_node :: "repository \<Rightarrow> element \<Rightarrow> node" where
  "external_node repository classifier =
     ExternalNode (ElementID classifier) (Element_Name classifier) (Element_Type classifier)
       (case GetPackageByID repository (PackageID classifier) of
          None \<Rightarrow> None
        | Some pkg \<Rightarrow> Some (Package_Name pkg))
       (map attr_record_of (Attributes classifier))"

definition process_external_classifier :: "repository \<Rightarrow> int \<Rightarrow> state \<Rightarrow> state" where
  "process_external_classifier repository classifierID st =
     (case GetElementByID repository classifierID of
        None \<Rightarrow> st
      | Some classifier \<Rightarrow>
          if ElementID classifier \<notin> visited_elements st then
            st\<lparr>graph_nodes := graph_nodes st @ [external_node repository classifier],
               visited_elements := insert (ElementID classifier) (visited_elements st),
               processed_elements :=
                 (processed_elements st)(ElementID classifier \<mapsto> external_node repository classifier)\<rparr>
          else st)"

text \<open>
  \<^verbatim>\<open>add_edges_from_element\<close> (lines 178 to 192). Both end points are looked up, and the
  f-string then reads \<^verbatim>\<open>sourceElement.ElementID\<close> and \<^verbatim>\<open>targetElement.ElementID\<close> with
  no test for \<^verbatim>\<open>None\<close>: a failed lookup raises \<^verbatim>\<open>AttributeError\<close>, which nothing
  catches.
\<close>

definition edge_key :: "int \<Rightarrow> int \<Rightarrow> string \<Rightarrow> string" where
  "edge_key s t ty = str_int s @ ''-'' @ str_int t @ ''-'' @ ty"

fun add_edges :: "repository \<Rightarrow> connector list \<Rightarrow> state \<Rightarrow> error + state" where
  "add_edges repository [] st = Inr st"
| "add_edges repository (connector # rest) st =
     (case GetElementByID repository (ClientID connector) of
        None \<Rightarrow> Inl AttributeError
      | Some sourceElement \<Rightarrow>
         (case GetElementByID repository (SupplierID connector) of
            None \<Rightarrow> Inl AttributeError
          | Some targetElement \<Rightarrow>
              if edge_key (ElementID sourceElement) (ElementID targetElement) (Connector_Type connector)
                   \<notin> edge_set st
              then add_edges repository rest
                     (st\<lparr>graph_edges := graph_edges st @
                           [\<lparr>edge_from = ElementID sourceElement, edge_to = ElementID targetElement,
                             edge_type = Connector_Type connector, edge_name = Connector_Name connector\<rparr>],
                         edge_set := insert (edge_key (ElementID sourceElement) (ElementID targetElement)
                                               (Connector_Type connector)) (edge_set st)\<rparr>)
              else add_edges repository rest st))"

definition add_edges_from_element :: "repository \<Rightarrow> element \<Rightarrow> state \<Rightarrow> error + state" where
  "add_edges_from_element repository element st = add_edges repository (Connectors element) st"

text \<open>
  The dictionary \<^verbatim>\<open>node\<close> that \<^verbatim>\<open>process_element\<close> builds (lines 98 to 119), with
  the list it has under \<^verbatim>\<open>"linkedDiagrams"\<close> when it is appended to the graph.
\<close>

definition element_node :: "element \<Rightarrow> diagram_object option \<Rightarrow> diagram_node list \<Rightarrow> node" where
  "element_node element diag_object linked =
     ElementNode (ElementID element) (Element_Name element) (Element_Type element)
       (map attr_record_of (Attributes element)) linked (position_of diag_object)"

text \<open>
  \<^verbatim>\<open>process_element\<close> (lines 94 to 130) and \<^verbatim>\<open>process_linked_diagrams\<close> (lines 157 to
  176) call each other. The first argument bounds the depth of that recursion: a call that
  would need more depth has the value \<^verbatim>\<open>None\<close>. A raised exception is \<^verbatim>\<open>Some (Inl e)\<close>,
  a normal return \<^verbatim>\<open>Some (Inr (value, state))\<close>. The interpreter's own limit on the
  recursion depth is not modelled.

  \<^verbatim>\<open>process_linked_diagrams\<close> touches one field of \<^verbatim>\<open>node\<close>, the list
  \<^verbatim>\<open>node["linkedDiagrams"]\<close>; the model threads that list (\<open>linked\<close>) and
  \<^verbatim>\<open>process_element\<close> puts it into the node it appends. \<open>linked_diagram_objects\<close> is the
  inner loop over the diagram objects (lines 164 to 170), with \<open>elementsInDiagram\<close> as
  its accumulator.
\<close>

fun process_element ::
    "nat \<Rightarrow> repository \<Rightarrow> element \<Rightarrow> diagram_object option \<Rightarrow> state
       \<Rightarrow> (error + node option \<times> state) option"
and process_linked_diagrams ::
    "nat \<Rightarrow> repository \<Rightarrow> diagram list \<Rightarrow> diagram_node list \<Rightarrow> state
       \<Rightarrow> (error + diagram_node list \<times> state) option"
and linked_diagram_objects ::
    "nat \<Rightarrow> repository \<Rightarrow> diagram_object list \<Rightarrow> node list \<Rightarrow> state
       \<Rightarrow> (error + node list \<times> state) option"
where
  "process_element 0 repository element diag_object st = None"
| "process_element (Suc n) repository element diag_object st =
     (if ElementID element \<in> visited_elements st
      then Some (Inr (processed_elements st (ElementID element), st))
      else
        (case process_linked_diagrams n repository (Element_Diagrams element) []
                (if ClassifierID element \<noteq> 0
                 then process_external_classifier repository (ClassifierID element)
                        (st\<lparr>visited_elements := insert (ElementID element) (visited_elements st)\<rparr>)
                 else st\<lparr>visited_elements := insert (ElementID element) (visited_elements st)\<rparr>) of
           None \<Rightarrow> None
         | Some (Inl err) \<Rightarrow> Some (Inl err)
         | Some (Inr (linked, st3)) \<Rightarrow>
            (case add_edges_from_element repository element st3 of
               Inl err \<Rightarrow> Some (Inl err)
             | Inr st4 \<Rightarrow>
                 Some (Inr (Some (element_node element diag_object linked),
                            st4\<lparr>graph_nodes := graph_nodes st4 @ [element_node element diag_object linked],
                                processed_elements := (processed_elements st4)
                                  (ElementID element \<mapsto> element_node element diag_object linked)\<rparr>)))))"
| "process_linked_diagrams n repository [] linked st = Some (Inr (linked, st))"
| "process_linked_diagrams n repository (diagram # rest) linked st =
     (if DiagramID diagram \<in> visited_diagrams st
      then process_linked_diagrams n repository rest linked st
      else
        (case linked_diagram_objects n repository (DiagramObjects diagram) []
                (st\<lparr>visited_diagrams := insert (DiagramID diagram) (visited_diagrams st)\<rparr>) of
           None \<Rightarrow> None
         | Some (Inl err) \<Rightarrow> Some (Inl err)
         | Some (Inr (elementsInDiagram, st')) \<Rightarrow>
             process_linked_diagrams n repository rest
               (linked @ [DiagramNode (diagram_key (DiagramID diagram)) (Diagram_Name diagram)
                            ''Diagram'' elementsInDiagram]) st'))"
| "linked_diagram_objects n repository [] elementsInDiagram st = Some (Inr (elementsInDiagram, st))"
| "linked_diagram_objects n repository (diag_object # rest) elementsInDiagram st =
     (case GetElementByID repository (Object_ElementID diag_object) of
        None \<Rightarrow> linked_diagram_objects n repository rest elementsInDiagram st
      | Some diag_element \<Rightarrow>
          if ElementID diag_element \<notin> visited_elements st then
            (case process_element n repository diag_element (Some diag_object) st of
               None \<Rightarrow> None
             | Some (Inl err) \<Rightarrow> Some (Inl err)
             | Some (Inr (processedElement, st')) \<Rightarrow>
                 linked_diagram_objects n repository rest
                   (case processedElement of
                      None \<Rightarrow> elementsInDiagram
                    | Some nd \<Rightarrow> elementsInDiagram @ [nd]) st')
          else linked_diagram_objects n repository rest elementsInDiagram st)"

text \<open>
  \<^verbatim>\<open>process_main_diagram\<close> (lines 68 to 92): \<open>main_diagram_objects\<close> is its loop
  over the diagram objects (lines 78 to 86), with \<^verbatim>\<open>mainDiagramNode["elements"]\<close> as its
  accumulator. The package node is appended after the loop.
\<close>

fun main_diagram_objects ::
    "nat \<Rightarrow> repository \<Rightarrow> diagram_object list \<Rightarrow> node list \<Rightarrow> state
       \<Rightarrow> (error + node list \<times> state) option"
where
  "main_diagram_objects n repository [] elems st = Some (Inr (elems, st))"
| "main_diagram_objects n repository (diag_object # rest) elems st =
     (case GetElementByID repository (Object_ElementID diag_object) of
        None \<Rightarrow> main_diagram_objects n repository rest elems st
      | Some diag_element \<Rightarrow>
          if ElementID diag_element \<notin> visited_elements st then
            (case process_element n repository diag_element (Some diag_object) st of
               None \<Rightarrow> None
             | Some (Inl err) \<Rightarrow> Some (Inl err)
             | Some (Inr (processedElement, st')) \<Rightarrow>
                 main_diagram_objects n repository rest
                   (case processedElement of
                      None \<Rightarrow> elems
                    | Some nd \<Rightarrow> elems @ [nd]) st')
          else main_diagram_objects n repository rest elems st)"

definition process_main_diagram ::
    "nat \<Rightarrow> repository \<Rightarrow> package \<Rightarrow> state \<Rightarrow> (error + state) option" where
  "process_main_diagram n repository pkg st =
     (case Package_Diagrams pkg of
        [] \<Rightarrow> Some (Inr st)
      | mainDiagram # _ \<Rightarrow>
         (case main_diagram_objects n repository (DiagramObjects mainDiagram) []
                 (st\<lparr>visited_diagrams := insert (DiagramID mainDiagram) (visited_diagrams st)\<rparr>) of
            None \<Rightarrow> None
          | Some (Inl err) \<Rightarrow> Some (Inl err)
          | Some (Inr (elems, st')) \<Rightarrow>
              Some (Inr (st'\<lparr>graph_nodes := graph_nodes st' @
                              [PackageNode (Package_Name pkg) ''Package''
                                 [DiagramNode (diagram_key (DiagramID mainDiagram))
                                    (Diagram_Name mainDiagram) ''Diagram'' elems]]\<rparr>))))"

definition generate_graph_from_package ::
    "nat \<Rightarrow> package \<Rightarrow> repository \<Rightarrow> (error + graph) option" where
  "generate_graph_from_package n ea_pkg repository =
     (case process_main_diagram n repository ea_pkg init_state of
        None \<Rightarrow> None
      | Some (Inl err) \<Rightarrow> Some (Inl err)
      | Some (Inr st) \<Rightarrow> Some (Inr \<lparr>nodes = graph_nodes st, edges = graph_edges st\<rparr>))"

section \<open>What is read off the result\<close>

text \<open>
  The integer under \<^verbatim>\<open>"id"\<close> of an element node or an external node (a package node has
  none), the position of a node, the triple that identifies an edge, and the diagram
  dictionaries a node lists under \<^verbatim>\<open>"linkedDiagrams"\<close> or \<^verbatim>\<open>"diagrams"\<close>.
\<close>

fun node_element_id :: "node \<Rightarrow> int option" where
  "node_element_id (ElementNode i nm ty attrs linked pos) = Some i"
| "node_element_id (ExternalNode i nm ty pkg attrs) = Some i"
| "node_element_id (PackageNode nm ty ds) = None"

definition node_ids :: "node list \<Rightarrow> int list" where
  "node_ids ns = List.map_filter node_element_id ns"

fun node_position :: "node \<Rightarrow> position option" where
  "node_position (ElementNode i nm ty attrs linked pos) = pos"
| "node_position (ExternalNode i nm ty pkg attrs) = None"
| "node_position (PackageNode nm ty ds) = None"

definition edge_triple :: "edge \<Rightarrow> int \<times> int \<times> string" where
  "edge_triple e = (edge_from e, edge_to e, edge_type e)"

fun diagram_node_id :: "diagram_node \<Rightarrow> string" where
  "diagram_node_id (DiagramNode i nm ty els) = i"

fun listed_diagrams :: "node \<Rightarrow> diagram_node list" where
  "listed_diagrams (ElementNode i nm ty attrs linked pos) = linked"
| "listed_diagrams (ExternalNode i nm ty pkg attrs) = []"
| "listed_diagrams (PackageNode nm ty ds) = ds"

definition listed_diagram_ids :: "node list \<Rightarrow> string list" where
  "listed_diagram_ids ns = concat (map (\<lambda>nd. map diagram_node_id (listed_diagrams nd)) ns)"

text \<open>
  What a diagram object resolves to, and what it means for a node to stand for a diagram
  object: it carries the object's element identifier and its coordinates.
\<close>

definition resolvable :: "repository \<Rightarrow> diagram_object \<Rightarrow> bool" where
  "resolvable repo obj \<longleftrightarrow> GetElementByID repo (Object_ElementID obj) \<noteq> None"

definition placed_as :: "node \<Rightarrow> diagram_object \<Rightarrow> bool" where
  "placed_as nd obj \<longleftrightarrow>
     node_element_id nd = Some (Object_ElementID obj) \<and> node_position nd = position_of (Some obj)"


text \<open>Reading a decimal string back, to show that \<^verbatim>\<open>str\<close> loses nothing.\<close>

definition digit_value :: "char \<Rightarrow> nat" where
  "digit_value c = of_char c - 48"

definition nat_of_digits :: "string \<Rightarrow> nat" where
  "nat_of_digits s = foldl (\<lambda>a c. 10 * a + digit_value c) 0 s"

text \<open>
  The edge that a connector stands for when both of its ends resolve, as
  \<^verbatim>\<open>add_edges_from_element\<close> builds it, and the edges of the connectors of the element behind
  an element node, in the order of \<^verbatim>\<open>element.Connectors\<close>. An external node and a package
  node own no edge. \<open>connectors_resolve\<close>: both ends of every connector of the element behind
  an element node resolve.
\<close>

definition connector_edge :: "repository \<Rightarrow> connector \<Rightarrow> edge option" where
  "connector_edge repo c =
     (case GetElementByID repo (ClientID c) of
        None \<Rightarrow> None
      | Some s \<Rightarrow>
         (case GetElementByID repo (SupplierID c) of
            None \<Rightarrow> None
          | Some t \<Rightarrow> Some \<lparr>edge_from = ElementID s, edge_to = ElementID t,
                            edge_type = Connector_Type c, edge_name = Connector_Name c\<rparr>))"

fun owned_edges :: "repository \<Rightarrow> node \<Rightarrow> edge list" where
  "owned_edges repo (ElementNode i nm ty attrs linked pos) =
     (case GetElementByID repo i of
        None \<Rightarrow> []
      | Some e \<Rightarrow> List.map_filter (connector_edge repo) (Connectors e))"
| "owned_edges repo (ExternalNode i nm ty pkg attrs) = []"
| "owned_edges repo (PackageNode nm ty ds) = []"

fun connectors_resolve :: "repository \<Rightarrow> node \<Rightarrow> bool" where
  "connectors_resolve repo (ElementNode i nm ty attrs linked pos) =
     (case GetElementByID repo i of
        None \<Rightarrow> True
      | Some e \<Rightarrow> list_all (\<lambda>c. connector_edge repo c \<noteq> None) (Connectors e))"
| "connectors_resolve repo (ExternalNode i nm ty pkg attrs) = True"
| "connectors_resolve repo (PackageNode nm ty ds) = True"

text \<open>
  Of a list of edges, the first edge of every triple of source, target and type, in the
  order of the list. \<open>edge_key_of\<close> is the key under which \<^verbatim>\<open>add_edges_from_element\<close> enters
  an edge in \<^verbatim>\<open>edge_set\<close>.
\<close>

function first_per_triple :: "edge list \<Rightarrow> edge list" where
  "first_per_triple [] = []"
| "first_per_triple (e # es) =
     e # first_per_triple (filter (\<lambda>x. edge_triple x \<noteq> edge_triple e) es)"
  by pat_completeness auto
termination
  by (relation "measure length") (auto simp: less_Suc_eq_le)

definition edge_key_of :: "edge \<Rightarrow> string" where
  "edge_key_of e = edge_key (edge_from e) (edge_to e) (edge_type e)"


fun is_external :: "node \<Rightarrow> bool" where
  "is_external (ExternalNode i nm ty pkg attrs) = True"
| "is_external (ElementNode i nm ty attrs linked pos) = False"
| "is_external (PackageNode nm ty ds) = False"


text \<open>
  The placements that a loop over diagram objects enters. The state in which the loop
  reaches the placement at position \<open>k\<close> is the state in which it leaves the placements
  before \<open>k\<close>; the placement is entered when its element resolves and is not visited in that
  state. \<open>placements_entered\<close> lists the entered placements in their order.
\<close>

definition state_when_reached :: "nat \<Rightarrow> repository \<Rightarrow> diagram_object list \<Rightarrow> state \<Rightarrow> state option" where
  "state_when_reached n repo pre st =
     (case linked_diagram_objects n repo pre [] st of
        Some (Inr (els, st_k)) \<Rightarrow> Some st_k
      | _ \<Rightarrow> None)"

definition entered :: "nat \<Rightarrow> repository \<Rightarrow> state \<Rightarrow> diagram_object list \<Rightarrow> nat \<Rightarrow> bool" where
  "entered n repo st objs k \<longleftrightarrow>
     (case state_when_reached n repo (take k objs) st of
        None \<Rightarrow> False
      | Some st_k \<Rightarrow> resolvable repo (objs ! k) \<and>
                     Object_ElementID (objs ! k) \<notin> visited_elements st_k)"

definition placements_entered ::
    "nat \<Rightarrow> repository \<Rightarrow> diagram_object list \<Rightarrow> state \<Rightarrow> diagram_object list" where
  "placements_entered n repo objs st =
     map (nth objs) (filter (entered n repo st objs) [0..<length objs])"

section \<open>Relations between the states of a traversal\<close>

text \<open>
  \<open>nodes_ext st st'\<close>: from \<open>st\<close> to \<open>st'\<close> nodes were only appended, the identifiers
  of the appended nodes are pairwise different, and they are exactly the element identifiers
  that became visited. \<open>edges_exact repo st\<close>: the edges of \<open>st\<close> are the first edge per
  triple of the connectors of its element nodes, in the order of the nodes, \<^verbatim>\<open>edge_set\<close>
  holds exactly their keys, and every connector of an element node resolves.
  \<open>externals_ext repo st st'\<close>: nodes were only appended, and every external node among
  them is the reduced node of the classifier of an appended element node.
\<close>

definition nodes_ext :: "state \<Rightarrow> state \<Rightarrow> bool" where
  "nodes_ext st st' \<longleftrightarrow>
     visited_elements st \<subseteq> visited_elements st' \<and>
     (\<exists>new. graph_nodes st' = graph_nodes st @ new \<and> distinct (node_ids new) \<and>
            set (node_ids new) = visited_elements st' - visited_elements st)"

definition edges_exact :: "repository \<Rightarrow> state \<Rightarrow> bool" where
  "edges_exact repo st \<longleftrightarrow>
     graph_edges st = first_per_triple (concat (map (owned_edges repo) (graph_nodes st))) \<and>
     edge_set st = edge_key_of ` set (graph_edges st) \<and>
     list_all (connectors_resolve repo) (graph_nodes st)"


text \<open>
  \<open>diagrams_ext st st'\<close>: the diagrams listed by the appended nodes are pairwise different
  and are exactly the diagrams that became visited. \<open>linked_ext\<close> is the same relation
  while a node is under construction: its list under \<^verbatim>\<open>"linkedDiagrams"\<close> counts too.
\<close>

definition diagrams_ext :: "state \<Rightarrow> state \<Rightarrow> bool" where
  "diagrams_ext st st' \<longleftrightarrow>
     visited_diagrams st \<subseteq> visited_diagrams st' \<and>
     (\<exists>new. graph_nodes st' = graph_nodes st @ new \<and> distinct (listed_diagram_ids new) \<and>
            set (listed_diagram_ids new) = diagram_key ` (visited_diagrams st' - visited_diagrams st))"

definition linked_ext :: "diagram_node list \<Rightarrow> state \<Rightarrow> diagram_node list \<Rightarrow> state \<Rightarrow> bool" where
  "linked_ext l st l' st' \<longleftrightarrow>
     visited_diagrams st \<subseteq> visited_diagrams st' \<and>
     (\<exists>new newl. graph_nodes st' = graph_nodes st @ new \<and> l' = l @ newl \<and>
            distinct (listed_diagram_ids new @ map diagram_node_id newl) \<and>
            set (listed_diagram_ids new @ map diagram_node_id newl) =
              diagram_key ` (visited_diagrams st' - visited_diagrams st))"



definition unvisited :: "repository \<Rightarrow> state \<Rightarrow> int set" where
  "unvisited repo st = ElementID ` set (Elements repo) - visited_elements st"

section \<open>Concrete model sources\<close>

text \<open>
  The scenario of the specification: package P with one diagram D that places A (1) and
  B (2); B owns one connector from A to B, of type Association, named uses.
\<close>

definition scenario_A :: element where
  "scenario_A = \<lparr>ElementID = 1, Element_Name = ''A'', Element_Type = ''Class'', Attributes = [],
      ClassifierID = 0, Element_Diagrams = [], Connectors = [], PackageID = 10\<rparr>"

definition scenario_B :: element where
  "scenario_B = \<lparr>ElementID = 2, Element_Name = ''B'', Element_Type = ''Class'', Attributes = [],
      ClassifierID = 0, Element_Diagrams = [],
      Connectors = [\<lparr>ClientID = 1, SupplierID = 2, Connector_Type = ''Association'',
                      Connector_Name = ''uses''\<rparr>],
      PackageID = 10\<rparr>"

definition scenario_place_A :: diagram_object where
  "scenario_place_A = \<lparr>Object_ElementID = 1, Object_left = Some 0, Object_right = Some 10,
      Object_top = Some 0, Object_bottom = Some (- 10)\<rparr>"

definition scenario_place_B :: diagram_object where
  "scenario_place_B = \<lparr>Object_ElementID = 2, Object_left = Some 20, Object_right = Some 30,
      Object_top = Some 0, Object_bottom = Some (- 10)\<rparr>"

definition scenario_D :: diagram where
  "scenario_D = \<lparr>DiagramID = 5, Diagram_Name = ''D'',
      DiagramObjects = [scenario_place_A, scenario_place_B]\<rparr>"

definition scenario_P :: package where
  "scenario_P = \<lparr>Package_ID = 10, Package_Name = ''P'', Package_Diagrams = [scenario_D]\<rparr>"

definition scenario_repo :: repository where
  "scenario_repo = \<lparr>Elements = [scenario_A, scenario_B], Packages = [scenario_P]\<rparr>"

definition scenario_node_A :: node where
  "scenario_node_A = ElementNode 1 ''A'' ''Class'' [] []
     (Some \<lparr>pos_left = Some 0, pos_right = Some 10, pos_top = Some 0, pos_bottom = Some (- 10)\<rparr>)"

definition scenario_node_B :: node where
  "scenario_node_B = ElementNode 2 ''B'' ''Class'' [] []
     (Some \<lparr>pos_left = Some 20, pos_right = Some 30, pos_top = Some 0, pos_bottom = Some (- 10)\<rparr>)"

definition scenario_edge :: edge where
  "scenario_edge = \<lparr>edge_from = 1, edge_to = 2, edge_type = ''Association'', edge_name = ''uses''\<rparr>"

text \<open>An element whose one connector names a supplier (99) that the repository does not hold.\<close>

definition dangling_E :: element where
  "dangling_E = \<lparr>ElementID = 1, Element_Name = ''E'', Element_Type = ''Class'', Attributes = [],
      ClassifierID = 0, Element_Diagrams = [],
      Connectors = [\<lparr>ClientID = 1, SupplierID = 99, Connector_Type = ''Association'',
                      Connector_Name = ''uses''\<rparr>],
      PackageID = 10\<rparr>"

definition dangling_P :: package where
  "dangling_P = \<lparr>Package_ID = 10, Package_Name = ''P'',
      Package_Diagrams = [\<lparr>DiagramID = 5, Diagram_Name = ''D'', DiagramObjects = [scenario_place_A]\<rparr>]\<rparr>"

definition dangling_repo :: repository where
  "dangling_repo = \<lparr>Elements = [dangling_E], Packages = [dangling_P]\<rparr>"

text \<open>The scenario's repository, with a diagram that shows B only.\<close>

definition only_B_P :: package where
  "only_B_P = \<lparr>Package_ID = 10, Package_Name = ''P'',
      Package_Diagrams = [\<lparr>DiagramID = 5, Diagram_Name = ''D'', DiagramObjects = [scenario_place_B]\<rparr>]\<rparr>"

text \<open>The scenario's repository, with a diagram that places A twice.\<close>

definition twice_A_D :: diagram where
  "twice_A_D = \<lparr>DiagramID = 5, Diagram_Name = ''D'',
      DiagramObjects = [scenario_place_A, scenario_place_A]\<rparr>"

definition twice_A_P :: package where
  "twice_A_P = \<lparr>Package_ID = 10, Package_Name = ''P'', Package_Diagrams = [twice_A_D]\<rparr>"

text \<open>A package without diagrams.\<close>

definition empty_P :: package where
  "empty_P = \<lparr>Package_ID = 10, Package_Name = ''P'', Package_Diagrams = []\<rparr>"

text \<open>
  The scenario with three connectors of B: from A to B of type Association named uses, from
  B to A of type Dependency named needs, and from A to B of type Association named owns.
\<close>

definition trio_B :: element where
  "trio_B = \<lparr>ElementID = 2, Element_Name = ''B'', Element_Type = ''Class'', Attributes = [],
      ClassifierID = 0, Element_Diagrams = [],
      Connectors = [\<lparr>ClientID = 1, SupplierID = 2, Connector_Type = ''Association'',
                      Connector_Name = ''uses''\<rparr>,
                    \<lparr>ClientID = 2, SupplierID = 1, Connector_Type = ''Dependency'',
                      Connector_Name = ''needs''\<rparr>,
                    \<lparr>ClientID = 1, SupplierID = 2, Connector_Type = ''Association'',
                      Connector_Name = ''owns''\<rparr>],
      PackageID = 10\<rparr>"

definition trio_repo :: repository where
  "trio_repo = \<lparr>Elements = [scenario_A, trio_B], Packages = [scenario_P]\<rparr>"

definition trio_edge_needs :: edge where
  "trio_edge_needs = \<lparr>edge_from = 2, edge_to = 1, edge_type = ''Dependency'', edge_name = ''needs''\<rparr>"

text \<open>
  The main diagram 5 places the element 1, which links the diagram 7; the diagram 7 places
  the elements 2 and 3; the element 2 links the diagram 7 again, and the element 3 links the
  main diagram 5.
\<close>

definition cycle_D5 :: diagram where
  "cycle_D5 = \<lparr>DiagramID = 5, Diagram_Name = ''D'', DiagramObjects = [scenario_place_A]\<rparr>"

definition cycle_D7 :: diagram where
  "cycle_D7 = \<lparr>DiagramID = 7, Diagram_Name = ''Detail'',
      DiagramObjects = [\<lparr>Object_ElementID = 2, Object_left = None, Object_right = None,
                          Object_top = None, Object_bottom = None\<rparr>,
                        \<lparr>Object_ElementID = 3, Object_left = None, Object_right = None,
                          Object_top = None, Object_bottom = None\<rparr>]\<rparr>"

definition cycle_E1 :: element where
  "cycle_E1 = \<lparr>ElementID = 1, Element_Name = ''A'', Element_Type = ''Class'', Attributes = [],
      ClassifierID = 0, Element_Diagrams = [cycle_D7], Connectors = [], PackageID = 10\<rparr>"

definition cycle_E2 :: element where
  "cycle_E2 = \<lparr>ElementID = 2, Element_Name = ''B'', Element_Type = ''Class'', Attributes = [],
      ClassifierID = 0, Element_Diagrams = [cycle_D7], Connectors = [], PackageID = 10\<rparr>"

definition cycle_E3 :: element where
  "cycle_E3 = \<lparr>ElementID = 3, Element_Name = ''C'', Element_Type = ''Class'', Attributes = [],
      ClassifierID = 0, Element_Diagrams = [cycle_D5], Connectors = [], PackageID = 10\<rparr>"

definition cycle_P :: package where
  "cycle_P = \<lparr>Package_ID = 10, Package_Name = ''P'', Package_Diagrams = [cycle_D5]\<rparr>"

definition cycle_repo :: repository where
  "cycle_repo = \<lparr>Elements = [cycle_E1, cycle_E2, cycle_E3], Packages = [cycle_P]\<rparr>"

definition cycle_node_2 :: node where
  "cycle_node_2 = ElementNode 2 ''B'' ''Class'' [] []
     (Some \<lparr>pos_left = None, pos_right = None, pos_top = None, pos_bottom = None\<rparr>)"

definition cycle_node_3 :: node where
  "cycle_node_3 = ElementNode 3 ''C'' ''Class'' [] []
     (Some \<lparr>pos_left = None, pos_right = None, pos_top = None, pos_bottom = None\<rparr>)"

definition cycle_node_1 :: node where
  "cycle_node_1 = ElementNode 1 ''A'' ''Class'' []
     [DiagramNode ''D7'' ''Detail'' ''Diagram'' [cycle_node_2, cycle_node_3]]
     (Some \<lparr>pos_left = Some 0, pos_right = Some 10, pos_top = Some 0, pos_bottom = Some (- 10)\<rparr>)"

text \<open>
  The second scenario of the specification: C (3) has the classifier 9, which resolves to the
  enumeration X; X has a connector and a linked diagram of its own, and C has one connector,
  from C to X, of type Realization, named is.
\<close>

definition typed_C :: element where
  "typed_C = \<lparr>ElementID = 3, Element_Name = ''C'', Element_Type = ''Class'', Attributes = [],
      ClassifierID = 9, Element_Diagrams = [],
      Connectors = [\<lparr>ClientID = 3, SupplierID = 9, Connector_Type = ''Realization'',
                      Connector_Name = ''is''\<rparr>],
      PackageID = 10\<rparr>"

definition typed_X :: element where
  "typed_X = \<lparr>ElementID = 9, Element_Name = ''X'', Element_Type = ''Enumeration'',
      Attributes = [\<lparr>AttributeID = 40, Attribute_Name = ''red'', Attribute_Type = ''int'',
                      Attribute_Default = ''0''\<rparr>],
      ClassifierID = 0,
      Element_Diagrams = [\<lparr>DiagramID = 8, Diagram_Name = ''Inside'', DiagramObjects = []\<rparr>],
      Connectors = [\<lparr>ClientID = 9, SupplierID = 3, Connector_Type = ''Dependency'',
                      Connector_Name = ''''\<rparr>],
      PackageID = 10\<rparr>"

definition typed_place_C :: diagram_object where
  "typed_place_C = \<lparr>Object_ElementID = 3, Object_left = Some 0, Object_right = Some 10,
      Object_top = Some 0, Object_bottom = Some (- 10)\<rparr>"

definition typed_P :: package where
  "typed_P = \<lparr>Package_ID = 10, Package_Name = ''P'',
      Package_Diagrams = [\<lparr>DiagramID = 5, Diagram_Name = ''D'', DiagramObjects = [typed_place_C]\<rparr>]\<rparr>"

definition typed_repo :: repository where
  "typed_repo = \<lparr>Elements = [typed_C, typed_X], Packages = [typed_P]\<rparr>"

definition typed_node_X :: node where
  "typed_node_X = ExternalNode 9 ''X'' ''Enumeration'' (Some ''P'')
     [\<lparr>attr_id = 40, attr_name = ''red'', attr_type = ''int'', attr_default = ''0''\<rparr>]"

definition typed_node_C :: node where
  "typed_node_C = ElementNode 3 ''C'' ''Class'' [] []
     (Some \<lparr>pos_left = Some 0, pos_right = Some 10, pos_top = Some 0, pos_bottom = Some (- 10)\<rparr>)"

definition typed_edge :: edge where
  "typed_edge = \<lparr>edge_from = 3, edge_to = 9, edge_type = ''Realization'', edge_name = ''is''\<rparr>"

definition typed_edge_X :: edge where
  "typed_edge_X = \<lparr>edge_from = 9, edge_to = 3, edge_type = ''Dependency'', edge_name = ''''\<rparr>"

section \<open>Evaluation and lookups\<close>

lemmas scenario_defs = scenario_A_def scenario_B_def scenario_place_A_def scenario_place_B_def
  scenario_D_def scenario_P_def scenario_repo_def scenario_node_A_def scenario_node_B_def scenario_edge_def
  dangling_E_def dangling_P_def dangling_repo_def only_B_P_def twice_A_D_def twice_A_P_def empty_P_def
  trio_B_def trio_repo_def trio_edge_needs_def

lemmas cycle_defs = cycle_D5_def cycle_D7_def cycle_E1_def cycle_E2_def cycle_E3_def cycle_P_def
  cycle_repo_def cycle_node_1_def cycle_node_2_def cycle_node_3_def

lemmas typed_defs = typed_C_def typed_X_def typed_place_C_def typed_P_def typed_repo_def
  typed_node_X_def typed_node_C_def typed_edge_def typed_edge_X_def

lemmas traversal_defs = generate_graph_from_package_def process_main_diagram_def init_state_def
  GetElementByID_def GetPackageByID_def add_edges_from_element_def position_of_def edge_key_def
  diagram_key_def str_int_def str_nat.simps digit_char_def element_node_def external_node_def
  attr_record_of_def process_external_classifier_def

lemma GetElementByID_Some:
  "GetElementByID repo i = Some e \<Longrightarrow> ElementID e = i \<and> e \<in> set (Elements repo)"
  by (auto simp: GetElementByID_def find_Some_iff)

lemma GetElementByID_idem:
  "GetElementByID repo i = Some e \<Longrightarrow> GetElementByID repo (ElementID e) = Some e"
  using GetElementByID_Some by blast

section \<open>Decimal strings determine their integer\<close>

lemma less_ten_cases:
  assumes "(d::nat) < 10"
  shows "d = 0 \<or> d = 1 \<or> d = 2 \<or> d = 3 \<or> d = 4 \<or> d = 5 \<or> d = 6 \<or> d = 7 \<or> d = 8 \<or> d = 9"
  using assms by arith

lemma digit_value_digit_char: "d < 10 \<Longrightarrow> digit_value (digit_char d) = d"
  using less_ten_cases[of d] by (auto simp: digit_value_def digit_char_def)

lemma digit_char_not_minus: "d < 10 \<Longrightarrow> digit_char d \<noteq> CHR ''-''"
  using less_ten_cases[of d] by (auto simp: digit_char_def)

lemma nat_of_digits_str_nat: "nat_of_digits (str_nat n) = n"
proof (induction n rule: str_nat.induct)
  case (1 n)
  show ?case
  proof (cases "n < 10")
    case True
    then show ?thesis
      by (subst str_nat.simps) (simp add: nat_of_digits_def digit_value_digit_char)
  next
    case False
    with 1 have "nat_of_digits (str_nat (n div 10)) = n div 10" by simp
    with False show ?thesis
      by (subst str_nat.simps) (simp add: nat_of_digits_def digit_value_digit_char)
  qed
qed

lemma str_nat_inj: "str_nat n = str_nat m \<Longrightarrow> n = m"
  by (metis nat_of_digits_str_nat)

lemma str_nat_digits: "c \<in> set (str_nat n) \<Longrightarrow> c \<noteq> CHR ''-''"
proof (induction n rule: str_nat.induct)
  case (1 n)
  show ?case
  proof (cases "n < 10")
    case True
    with "1.prems" show ?thesis
      by (subst (asm) str_nat.simps) (simp add: digit_char_not_minus)
  next
    case False
    with "1.prems" have "c \<in> set (str_nat (n div 10)) \<or> c = digit_char (n mod 10)"
      by (subst (asm) str_nat.simps) auto
    moreover have "digit_char (n mod 10) \<noteq> CHR ''-''"
      by (rule digit_char_not_minus) simp
    ultimately show ?thesis using 1(1)[OF False] by auto
  qed
qed

lemma str_nat_not_minus: "str_nat n \<noteq> CHR ''-'' # s"
  using str_nat_digits[of "CHR ''-''" n] by auto

lemma str_int_inj: "str_int i = str_int j \<Longrightarrow> i = j"
  by (auto simp: str_int_def str_nat_not_minus str_nat_not_minus[symmetric]
      split: if_splits dest!: str_nat_inj)

lemma diagram_key_inj: "diagram_key d = diagram_key d' \<Longrightarrow> d = d'"
  by (simp add: diagram_key_def str_int_inj)

lemma diagram_key_image_disjoint:
  "A \<inter> B = {} \<Longrightarrow> diagram_key ` A \<inter> diagram_key ` B = {}"
  using diagram_key_inj by blast

lemma str_nat_nonempty: "str_nat n \<noteq> []"
  by (subst str_nat.simps) simp

lemma str_int_nonempty: "str_int i \<noteq> []"
  by (simp add: str_int_def str_nat_nonempty)

lemma str_int_minus_first:
  assumes "str_int i = xs @ CHR ''-'' # ys"
  shows "xs = []"
proof (rule ccontr)
  assume "xs \<noteq> []"
  then obtain x xs' where xs: "xs = x # xs'" by (cases xs) auto
  show False
  proof (cases "i < 0")
    case True
    with assms xs have "str_nat (nat (- i)) = xs' @ CHR ''-'' # ys" by (simp add: str_int_def)
    then have "CHR ''-'' \<in> set (str_nat (nat (- i)))" by simp
    then show False using str_nat_digits by blast
  next
    case False
    with assms have "CHR ''-'' \<in> set (str_nat (nat i))" by (simp add: str_int_def)
    then show False using str_nat_digits by blast
  qed
qed

lemma str_int_prefix_inj:
  assumes "str_int a @ CHR ''-'' # r = str_int b @ CHR ''-'' # r'"
  shows "a = b \<and> r = r'"
proof -
  from assms obtain us where d:
    "(str_int a = str_int b @ us \<and> us @ CHR ''-'' # r = CHR ''-'' # r') \<or>
     (str_int a @ us = str_int b \<and> CHR ''-'' # r = us @ CHR ''-'' # r')"
    by (auto simp: append_eq_append_conv2)
  then have "us = []"
  proof
    assume h: "str_int a = str_int b @ us \<and> us @ CHR ''-'' # r = CHR ''-'' # r'"
    show ?thesis
    proof (cases us)
      case Nil then show ?thesis .
    next
      case (Cons u us')
      with h have "str_int a = str_int b @ CHR ''-'' # us'" by simp
      from str_int_minus_first[OF this] str_int_nonempty show ?thesis by simp
    qed
  next
    assume h: "str_int a @ us = str_int b \<and> CHR ''-'' # r = us @ CHR ''-'' # r'"
    show ?thesis
    proof (cases us)
      case Nil then show ?thesis .
    next
      case (Cons u us')
      with h have "str_int b = str_int a @ CHR ''-'' # us'" by auto
      from str_int_minus_first[OF this] str_int_nonempty show ?thesis by simp
    qed
  qed
  with d have "str_int a = str_int b" and "r = r'" by auto
  then show ?thesis using str_int_inj by blast
qed

lemma edge_key_inj:
  assumes "edge_key s t ty = edge_key s' t' ty'"
  shows "s = s' \<and> t = t' \<and> ty = ty'"
proof -
  from assms have "str_int s @ CHR ''-'' # (str_int t @ CHR ''-'' # ty) =
      str_int s' @ CHR ''-'' # (str_int t' @ CHR ''-'' # ty')"
    by (simp add: edge_key_def)
  from str_int_prefix_inj[OF this] have 1: "s = s'"
    and 2: "str_int t @ CHR ''-'' # ty = str_int t' @ CHR ''-'' # ty'" by simp_all
  from str_int_prefix_inj[OF 2] 1 show ?thesis by simp
qed

lemma edge_key_of_eq: "edge_key_of e = edge_key_of e' \<longleftrightarrow> edge_triple e = edge_triple e'"
  using edge_key_inj by (auto simp: edge_key_of_def edge_triple_def)

section \<open>One rule for every property that the traversal preserves\<close>

text \<open>
  The traversal is a mutual recursion through three functions. A relation \<open>R\<close> between the
  state before and after (and a relation \<open>Q\<close> that also sees the list under
  \<^verbatim>\<open>"linkedDiagrams"\<close>) holds of every completed call as soon as it holds of the steps the
  recursion is made of: this is proved once, by induction along the recursion, and each
  property below only checks the steps. The loop of \<^verbatim>\<open>process_main_diagram\<close> computes what
  the loop of \<^verbatim>\<open>process_linked_diagrams\<close> computes, so one rule serves both.
\<close>

lemma traversal_rule:
  fixes R :: "repository \<Rightarrow> state \<Rightarrow> state \<Rightarrow> bool"
    and Q :: "repository \<Rightarrow> diagram_node list \<Rightarrow> state \<Rightarrow> diagram_node list \<Rightarrow> state \<Rightarrow> bool"
  assumes R_refl: "\<And>repo st. R repo st st"
    and R_trans: "\<And>repo st st' st''. R repo st st' \<Longrightarrow> R repo st' st'' \<Longrightarrow> R repo st st''"
    and Q_refl: "\<And>repo l st. Q repo l st l st"
    and Q_step: "\<And>repo (d::diagram) l st st2 els l' st'.
        DiagramID d \<notin> visited_diagrams st \<Longrightarrow>
        R repo (st\<lparr>visited_diagrams := insert (DiagramID d) (visited_diagrams st)\<rparr>) st2 \<Longrightarrow>
        Q repo (l @ [DiagramNode (diagram_key (DiagramID d)) (Diagram_Name d) ''Diagram'' els]) st2 l' st' \<Longrightarrow>
        Q repo l st l' st'"
    and bracket: "\<And>repo e obj st linked st3 st4.
        ElementID e \<notin> visited_elements st \<Longrightarrow>
        GetElementByID repo (ElementID e) = Some e \<Longrightarrow>
        Q repo []
          (if ClassifierID e \<noteq> 0
           then process_external_classifier repo (ClassifierID e)
                  (st\<lparr>visited_elements := insert (ElementID e) (visited_elements st)\<rparr>)
           else st\<lparr>visited_elements := insert (ElementID e) (visited_elements st)\<rparr>) linked st3 \<Longrightarrow>
        add_edges_from_element repo e st3 = Inr st4 \<Longrightarrow>
        R repo st (st4\<lparr>graph_nodes := graph_nodes st4 @ [element_node e obj linked],
                       processed_elements := (processed_elements st4)(ElementID e \<mapsto> element_node e obj linked)\<rparr>)"
  shows "process_element n repo e obj st = Some (Inr (r, st')) \<Longrightarrow>
           GetElementByID repo (ElementID e) = Some e \<Longrightarrow> R repo st st'"
    and "process_linked_diagrams n repo ds l st = Some (Inr (l', st')) \<Longrightarrow> Q repo l st l' st'"
    and "linked_diagram_objects n repo objs els st = Some (Inr (els', st')) \<Longrightarrow> R repo st st'"
proof (induction n repo e obj st and n repo ds l st and n repo objs els st
    arbitrary: r st' and l' st' and els' st'
    rule: process_element_process_linked_diagrams_linked_diagram_objects.induct)
  case (1 repository element diag_object st)
  then show ?case by simp
next
  case (2 n repository element diag_object st)
  show ?case
  proof (cases "ElementID element \<in> visited_elements st")
    case True
    with "2.prems" show ?thesis by (simp add: R_refl)
  next
    case False
    with "2.prems" obtain linked st3 st4 where
      a: "process_linked_diagrams n repository (Element_Diagrams element) []
                (if ClassifierID element \<noteq> 0
                 then process_external_classifier repository (ClassifierID element)
                        (st\<lparr>visited_elements := insert (ElementID element) (visited_elements st)\<rparr>)
                 else st\<lparr>visited_elements := insert (ElementID element) (visited_elements st)\<rparr>) = Some (Inr (linked, st3))"
      and b: "add_edges_from_element repository element st3 = Inr st4"
      and c: "st' = st4\<lparr>graph_nodes := graph_nodes st4 @ [element_node element diag_object linked],
                       processed_elements := (processed_elements st4)(ElementID element \<mapsto> element_node element diag_object linked)\<rparr>"
      by (auto split: option.splits sum.splits prod.splits if_splits)
    from "2.IH"[OF False a] have "Q repository [] (if ClassifierID element \<noteq> 0
                 then process_external_classifier repository (ClassifierID element)
                        (st\<lparr>visited_elements := insert (ElementID element) (visited_elements st)\<rparr>)
                 else st\<lparr>visited_elements := insert (ElementID element) (visited_elements st)\<rparr>) linked st3" .
    from bracket[OF False "2.prems"(2) this b] c show ?thesis by simp
  qed
next
  case (3 n repository linked st)
  then show ?case by (simp add: Q_refl)
next
  case (4 n repository diagram rest linked st)
  show ?case
  proof (cases "DiagramID diagram \<in> visited_diagrams st")
    case True
    with "4.prems" "4.IH"(1) show ?thesis by simp
  next
    case False
    with "4.prems" obtain elementsInDiagram st2 where
      a: "linked_diagram_objects n repository (DiagramObjects diagram) []
                (st\<lparr>visited_diagrams := insert (DiagramID diagram) (visited_diagrams st)\<rparr>) = Some (Inr (elementsInDiagram, st2))"
      and b: "process_linked_diagrams n repository rest
               (linked @ [DiagramNode (diagram_key (DiagramID diagram)) (Diagram_Name diagram)
                            ''Diagram'' elementsInDiagram]) st2 = Some (Inr (l', st'))"
      by (auto split: option.splits sum.splits prod.splits)
    from "4.IH"(2)[OF False a] "4.IH"(3)[OF False a refl refl b] Q_step[OF False]
    show ?thesis by blast
  qed
next
  case (5 n repository elementsInDiagram st)
  then show ?case by (simp add: R_refl)
next
  case (6 n repository diag_object rest elementsInDiagram st)
  show ?case
  proof (cases "GetElementByID repository (Object_ElementID diag_object)")
    case None
    with "6.prems" "6.IH"(1) show ?thesis by simp
  next
    case (Some diag_element)
    show ?thesis
    proof (cases "ElementID diag_element \<in> visited_elements st")
      case True
      with Some "6.prems" "6.IH"(4) show ?thesis by simp
    next
      case False
      with Some "6.prems" obtain processedElement st2 where
        a: "process_element n repository diag_element (Some diag_object) st = Some (Inr (processedElement, st2))"
        and b: "linked_diagram_objects n repository rest
                   (case processedElement of
                      None \<Rightarrow> elementsInDiagram
                    | Some nd \<Rightarrow> elementsInDiagram @ [nd]) st2 = Some (Inr (els', st'))"
        by (auto split: option.splits sum.splits prod.splits)
      from "6.IH"(2)[OF Some False a GetElementByID_idem[OF Some]] "6.IH"(3)[OF Some False a refl refl b] R_trans
      show ?thesis by blast
    qed
  qed
qed

lemma main_diagram_objects_eq:
  "main_diagram_objects n repo objs els st = linked_diagram_objects n repo objs els st"
  by (induction objs arbitrary: els st) (auto split: option.splits sum.splits)

lemma process_main_diagram_cases:
  assumes "process_main_diagram n repo pkg st = Some (Inr st')"
  obtains (empty) "Package_Diagrams pkg = []" "st' = st"
  | (main) mainDiagram rest elems st2 where "Package_Diagrams pkg = mainDiagram # rest"
      "main_diagram_objects n repo (DiagramObjects mainDiagram) []
         (st\<lparr>visited_diagrams := insert (DiagramID mainDiagram) (visited_diagrams st)\<rparr>) = Some (Inr (elems, st2))"
      "st' = st2\<lparr>graph_nodes := graph_nodes st2 @
                              [PackageNode (Package_Name pkg) ''Package''
                                 [DiagramNode (diagram_key (DiagramID mainDiagram))
                                    (Diagram_Name mainDiagram) ''Diagram'' elems]]\<rparr>"
  using assms unfolding process_main_diagram_def
  by (auto split: list.splits option.splits sum.splits prod.splits)

lemma generate_graph_cases:
  assumes "generate_graph_from_package n pkg repo = Some (Inr g)"
  obtains st where "process_main_diagram n repo pkg init_state = Some (Inr st)"
    "g = \<lparr>nodes = graph_nodes st, edges = graph_edges st\<rparr>"
  using assms unfolding generate_graph_from_package_def
  by (auto split: option.splits sum.splits)

lemma process_element_fresh_cases:
  assumes "process_element n repo e obj st = Some (Inr (r, st'))"
    and "ElementID e \<notin> visited_elements st"
  obtains k linked st3 st4 where "n = Suc k"
    "process_linked_diagrams k repo (Element_Diagrams e) []
       (if ClassifierID e \<noteq> 0
        then process_external_classifier repo (ClassifierID e)
               (st\<lparr>visited_elements := insert (ElementID e) (visited_elements st)\<rparr>)
        else st\<lparr>visited_elements := insert (ElementID e) (visited_elements st)\<rparr>) = Some (Inr (linked, st3))"
    "add_edges_from_element repo e st3 = Inr st4"
    "r = Some (element_node e obj linked)"
    "st' = st4\<lparr>graph_nodes := graph_nodes st4 @ [element_node e obj linked],
              processed_elements := (processed_elements st4)(ElementID e \<mapsto> element_node e obj linked)\<rparr>"
proof (cases n)
  case 0
  with assms show ?thesis by simp
next
  case (Suc k)
  with assms that show ?thesis
    by (auto split: option.splits sum.splits prod.splits if_splits)
qed

lemma add_edges_frame:
  "add_edges repo cs st = Inr st' \<Longrightarrow>
     graph_nodes st' = graph_nodes st \<and> visited_elements st' = visited_elements st \<and>
     visited_diagrams st' = visited_diagrams st \<and> processed_elements st' = processed_elements st"
  by (induction cs arbitrary: st) (auto split: option.splits if_splits)

lemma process_external_classifier_frame:
  "graph_edges (process_external_classifier repo c st) = graph_edges st"
  "edge_set (process_external_classifier repo c st) = edge_set st"
  "visited_diagrams (process_external_classifier repo c st) = visited_diagrams st"
  by (simp_all add: process_external_classifier_def split: option.splits)

subsection \<open>Nodes are appended once per visited element\<close>

lemma node_ids_append [simp]: "node_ids (xs @ ys) = node_ids xs @ node_ids ys"
  by (induction xs) (simp_all add: node_ids_def map_filter_simps split: option.splits)

lemma node_ids_simps [simp]:
  "node_ids [] = []"
  "node_ids (ElementNode i nm ty attrs linked pos # ns) = i # node_ids ns"
  "node_ids (ExternalNode i nm ty pk attrs # ns) = i # node_ids ns"
  "node_ids (PackageNode nm ty ds # ns) = node_ids ns"
  by (simp_all add: node_ids_def map_filter_simps)




lemma nodes_ext_refl: "nodes_ext st st"
  by (simp add: nodes_ext_def)

lemma nodes_ext_trans:
  assumes "nodes_ext st st'" "nodes_ext st' st''"
  shows "nodes_ext st st''"
proof -
  from assms(1) obtain new1 where 1: "visited_elements st \<subseteq> visited_elements st'"
    "graph_nodes st' = graph_nodes st @ new1" "distinct (node_ids new1)"
    "set (node_ids new1) = visited_elements st' - visited_elements st"
    by (auto simp: nodes_ext_def)
  from assms(2) obtain new2 where 2: "visited_elements st' \<subseteq> visited_elements st''"
    "graph_nodes st'' = graph_nodes st' @ new2" "distinct (node_ids new2)"
    "set (node_ids new2) = visited_elements st'' - visited_elements st'"
    by (auto simp: nodes_ext_def)
  have "graph_nodes st'' = graph_nodes st @ (new1 @ new2)" using 1 2 by simp
  moreover have "distinct (node_ids (new1 @ new2))" using 1 2 by auto
  moreover have "set (node_ids (new1 @ new2)) = visited_elements st'' - visited_elements st"
    using 1 2 by auto
  ultimately show ?thesis unfolding nodes_ext_def using 1(1) 2(1) by blast
qed

lemma nodes_ext_classifier:
  "nodes_ext st (process_external_classifier repo c st)"
  by (auto simp: nodes_ext_def process_external_classifier_def external_node_def split: option.splits)

lemma nodes_ext_bracket:
  assumes fresh: "ElementID e \<notin> visited_elements st"
    and mid: "nodes_ext (if ClassifierID e \<noteq> 0
           then process_external_classifier repo (ClassifierID e)
                  (st\<lparr>visited_elements := insert (ElementID e) (visited_elements st)\<rparr>)
           else st\<lparr>visited_elements := insert (ElementID e) (visited_elements st)\<rparr>) st3"
    and edges: "add_edges_from_element repo e st3 = Inr st4"
  shows "nodes_ext st (st4\<lparr>graph_nodes := graph_nodes st4 @ [element_node e obj linked],
                       processed_elements := (processed_elements st4)(ElementID e \<mapsto> element_node e obj linked)\<rparr>)"
proof -
  let ?st1 = "st\<lparr>visited_elements := insert (ElementID e) (visited_elements st)\<rparr>"
  have "nodes_ext ?st1 (if ClassifierID e \<noteq> 0
           then process_external_classifier repo (ClassifierID e) ?st1 else ?st1)"
    by (simp add: nodes_ext_classifier nodes_ext_refl)
  from nodes_ext_trans[OF this mid] have "nodes_ext ?st1 st3" .
  then obtain new where n: "insert (ElementID e) (visited_elements st) \<subseteq> visited_elements st3"
    "graph_nodes st3 = graph_nodes st @ new" "distinct (node_ids new)"
    "set (node_ids new) = visited_elements st3 - insert (ElementID e) (visited_elements st)"
    by (auto simp: nodes_ext_def)
  from edges have f: "graph_nodes st4 = graph_nodes st3" "visited_elements st4 = visited_elements st3"
    using add_edges_frame by (auto simp: add_edges_from_element_def)
  show ?thesis
    unfolding nodes_ext_def
    apply (rule conjI)
    using n f apply auto[1]
    apply (rule exI[of _ "new @ [element_node e obj linked]"])
    using n f fresh apply (auto simp: element_node_def)
    done
qed

lemma nodes_ext_traversal:
  "process_element n repo e obj st = Some (Inr (r, st')) \<Longrightarrow>
           GetElementByID repo (ElementID e) = Some e \<Longrightarrow> nodes_ext st st'"
  "process_linked_diagrams n repo ds l st = Some (Inr (l', st')) \<Longrightarrow> nodes_ext st st'"
  "linked_diagram_objects n repo objs els st = Some (Inr (els', st')) \<Longrightarrow> nodes_ext st st'"
proof -
  let ?R = "\<lambda>(repo::repository) st st'. nodes_ext st st'"
  let ?Q = "\<lambda>(repo::repository) (l::diagram_node list) st (l'::diagram_node list) st'. nodes_ext st st'"
  have step: "\<And>(d::diagram) st st2 st'. nodes_ext (st\<lparr>visited_diagrams := insert (DiagramID d) (visited_diagrams st)\<rparr>) st2 \<Longrightarrow>
      nodes_ext st2 st' \<Longrightarrow> nodes_ext st st'"
  proof -
    fix d :: diagram and st st2 st'
    assume a: "nodes_ext (st\<lparr>visited_diagrams := insert (DiagramID d) (visited_diagrams st)\<rparr>) st2"
      and b: "nodes_ext st2 st'"
    have "nodes_ext st (st\<lparr>visited_diagrams := insert (DiagramID d) (visited_diagrams st)\<rparr>)"
      by (simp add: nodes_ext_def)
    from nodes_ext_trans[OF nodes_ext_trans[OF this a] b] show "nodes_ext st st'" .
  qed
  note rule = traversal_rule[where R = ?R and Q = ?Q, OF nodes_ext_refl nodes_ext_trans nodes_ext_refl step nodes_ext_bracket]
  show "process_element n repo e obj st = Some (Inr (r, st')) \<Longrightarrow>
           GetElementByID repo (ElementID e) = Some e \<Longrightarrow> nodes_ext st st'"
    by (rule rule(1))
  show "process_linked_diagrams n repo ds l st = Some (Inr (l', st')) \<Longrightarrow> nodes_ext st st'"
    by (rule rule(2))
  show "linked_diagram_objects n repo objs els st = Some (Inr (els', st')) \<Longrightarrow> nodes_ext st st'"
    by (rule rule(3))
qed

lemma main_diagram_objects_nodes_ext:
  "main_diagram_objects n repo objs els st = Some (Inr (els', st')) \<Longrightarrow> nodes_ext st st'"
  by (simp add: main_diagram_objects_eq nodes_ext_traversal(3))

lemma process_element_fresh_result:
  assumes run: "process_element n repo e obj st = Some (Inr (r, st'))"
    and fresh: "ElementID e \<notin> visited_elements st"
  shows "\<exists>linked. r = Some (element_node e obj linked)"
    and "visited_elements st \<subseteq> visited_elements st'"
    and "ElementID e \<in> visited_elements st'"
proof -
  from run fresh obtain k linked st3 st4 where c: "n = Suc k"
    "process_linked_diagrams k repo (Element_Diagrams e) []
       (if ClassifierID e \<noteq> 0
        then process_external_classifier repo (ClassifierID e)
               (st\<lparr>visited_elements := insert (ElementID e) (visited_elements st)\<rparr>)
        else st\<lparr>visited_elements := insert (ElementID e) (visited_elements st)\<rparr>) = Some (Inr (linked, st3))"
    "add_edges_from_element repo e st3 = Inr st4"
    "r = Some (element_node e obj linked)"
    "st' = st4\<lparr>graph_nodes := graph_nodes st4 @ [element_node e obj linked],
              processed_elements := (processed_elements st4)(ElementID e \<mapsto> element_node e obj linked)\<rparr>"
    by (rule process_element_fresh_cases)
  let ?st1 = "st\<lparr>visited_elements := insert (ElementID e) (visited_elements st)\<rparr>"
  let ?st2 = "if ClassifierID e \<noteq> 0
        then process_external_classifier repo (ClassifierID e) ?st1 else ?st1"
  have "nodes_ext ?st1 ?st2" by (simp add: nodes_ext_classifier nodes_ext_refl)
  moreover from c(2) have "nodes_ext ?st2 st3" by (rule nodes_ext_traversal(2))
  ultimately have "nodes_ext ?st1 st3" by (rule nodes_ext_trans)
  then have "insert (ElementID e) (visited_elements st) \<subseteq> visited_elements st3"
    by (simp add: nodes_ext_def)
  moreover from c(3) have "visited_elements st4 = visited_elements st3"
    using add_edges_frame by (auto simp: add_edges_from_element_def)
  ultimately have v: "insert (ElementID e) (visited_elements st) \<subseteq> visited_elements st'"
    using c(5) by simp
  from c(4) show "\<exists>linked. r = Some (element_node e obj linked)" by blast
  from v show "visited_elements st \<subseteq> visited_elements st'" by blast
  from v show "ElementID e \<in> visited_elements st'" by blast
qed

subsection \<open>The edges are the first edge per triple of the connectors of the element nodes\<close>

lemma first_per_triple_triples:
  "edge_triple ` set (first_per_triple xs) = edge_triple ` set xs"
proof (induction xs rule: first_per_triple.induct)
  case 1
  then show ?case by simp
next
  case (2 e es)
  then show ?case by auto
qed

lemma first_per_triple_distinct: "distinct (map edge_triple (first_per_triple xs))"
proof (induction xs rule: first_per_triple.induct)
  case 1
  then show ?case by simp
next
  case (2 e es)
  have "edge_triple e \<notin> edge_triple ` set (first_per_triple (filter (\<lambda>x. edge_triple x \<noteq> edge_triple e) es))"
    unfolding first_per_triple_triples by auto
  with 2 show ?case by simp
qed

lemma first_per_triple_snoc:
  "first_per_triple (xs @ [e]) =
     (if edge_triple e \<in> edge_triple ` set xs then first_per_triple xs
      else first_per_triple xs @ [e])"
proof (induction xs rule: first_per_triple.induct)
  case 1
  then show ?case by simp
next
  case (2 x xs)
  show ?case
  proof (cases "edge_triple e = edge_triple x")
    case True
    then show ?thesis by simp
  next
    case False
    have "edge_triple e \<in> edge_triple ` set (filter (\<lambda>y. edge_triple y \<noteq> edge_triple x) xs) \<longleftrightarrow>
        edge_triple e \<in> edge_triple ` set xs"
      using False by auto
    with 2 False show ?thesis by simp
  qed
qed


lemma add_edges_exact:
  assumes "add_edges repo cs st = Inr st'"
    and "graph_edges st = first_per_triple X"
    and "edge_set st = edge_key_of ` set (graph_edges st)"
  shows "graph_edges st' = first_per_triple (X @ List.map_filter (connector_edge repo) cs) \<and>
         edge_set st' = edge_key_of ` set (graph_edges st')"
  using assms
proof (induction cs arbitrary: st X)
  case Nil
  then show ?case by (simp add: map_filter_simps)
next
  case (Cons c cs)
  from Cons.prems(1) obtain s t where
    s: "GetElementByID repo (ClientID c) = Some s" and t: "GetElementByID repo (SupplierID c) = Some t"
    by (auto split: option.splits)
  let ?e = "\<lparr>edge_from = ElementID s, edge_to = ElementID t,
             edge_type = Connector_Type c, edge_name = Connector_Name c\<rparr>"
  have ce: "connector_edge repo c = Some ?e" using s t by (simp add: connector_edge_def)
  have key: "edge_key (ElementID s) (ElementID t) (Connector_Type c) = edge_key_of ?e"
    by (simp add: edge_key_of_def)
  have seen: "edge_key_of ?e \<in> edge_set st \<longleftrightarrow> edge_triple ?e \<in> edge_triple ` set X"
  proof -
    have "edge_key_of ?e \<in> edge_set st \<longleftrightarrow> edge_triple ?e \<in> edge_triple ` set (graph_edges st)"
      unfolding Cons.prems(3) using edge_key_of_eq by (auto simp: image_iff)
    then show ?thesis by (simp add: Cons.prems(2) first_per_triple_triples)
  qed
  have app: "X @ List.map_filter (connector_edge repo) (c # cs) =
      (X @ [?e]) @ List.map_filter (connector_edge repo) cs"
    using ce by (simp add: map_filter_simps)
  show ?case
  proof (cases "edge_key_of ?e \<in> edge_set st")
    case True
    with Cons.prems(1) s t key have run: "add_edges repo cs st = Inr st'" by simp
    from True seen have "graph_edges st = first_per_triple (X @ [?e])"
      by (simp add: first_per_triple_snoc Cons.prems(2))
    from Cons.IH[OF run this Cons.prems(3)] show ?thesis unfolding app .
  next
    case False
    let ?st1 = "st\<lparr>graph_edges := graph_edges st @ [?e],
                  edge_set := insert (edge_key (ElementID s) (ElementID t) (Connector_Type c)) (edge_set st)\<rparr>"
    from False Cons.prems(1) s t key have run: "add_edges repo cs ?st1 = Inr st'" by simp
    from False seen have 1: "graph_edges ?st1 = first_per_triple (X @ [?e])"
      by (simp add: first_per_triple_snoc Cons.prems(2))
    have 2: "edge_set ?st1 = edge_key_of ` set (graph_edges ?st1)"
      using Cons.prems(3) key by simp
    from Cons.IH[OF run 1 2] show ?thesis unfolding app .
  qed
qed

lemma add_edges_resolves:
  "add_edges repo cs st = Inr st' \<Longrightarrow> list_all (\<lambda>c. connector_edge repo c \<noteq> None) cs"
proof (induction cs arbitrary: st)
  case Nil
  then show ?case by simp
next
  case (Cons c cs)
  from Cons.prems obtain s t where
    s: "GetElementByID repo (ClientID c) = Some s" and t: "GetElementByID repo (SupplierID c) = Some t"
    by (auto split: option.splits)
  then have "connector_edge repo c \<noteq> None" by (simp add: connector_edge_def)
  moreover from Cons.prems s t obtain st1 where "add_edges repo cs st1 = Inr st'"
    by (auto split: if_splits)
  then have "list_all (\<lambda>c. connector_edge repo c \<noteq> None) cs" by (rule Cons.IH)
  ultimately show ?case by simp
qed

lemma owned_edges_element_node:
  "GetElementByID repo (ElementID e) = Some e \<Longrightarrow>
     owned_edges repo (element_node e obj linked) = List.map_filter (connector_edge repo) (Connectors e)"
  by (simp add: element_node_def)

lemma connectors_resolve_element_node:
  "GetElementByID repo (ElementID e) = Some e \<Longrightarrow>
     connectors_resolve repo (element_node e obj linked) =
       list_all (\<lambda>c. connector_edge repo c \<noteq> None) (Connectors e)"
  by (simp add: element_node_def)

lemma edges_exact_classifier:
  "edges_exact repo st \<Longrightarrow> edges_exact repo (process_external_classifier repo cid st)"
  by (auto simp: edges_exact_def process_external_classifier_def external_node_def split: option.splits)

lemma edges_exact_bracket:
  assumes resolved: "GetElementByID repo (ElementID e) = Some e"
    and mid: "edges_exact repo
          (if ClassifierID e \<noteq> 0
           then process_external_classifier repo (ClassifierID e)
                  (st\<lparr>visited_elements := insert (ElementID e) (visited_elements st)\<rparr>)
           else st\<lparr>visited_elements := insert (ElementID e) (visited_elements st)\<rparr>) \<longrightarrow>
        edges_exact repo st3"
    and run: "add_edges_from_element repo e st3 = Inr st4"
  shows "edges_exact repo st \<longrightarrow>
         edges_exact repo (st4\<lparr>graph_nodes := graph_nodes st4 @ [element_node e obj linked],
                       processed_elements := (processed_elements st4)(ElementID e \<mapsto> element_node e obj linked)\<rparr>)"
proof
  assume ok: "edges_exact repo st"
  let ?st1 = "st\<lparr>visited_elements := insert (ElementID e) (visited_elements st)\<rparr>"
  let ?st2 = "if ClassifierID e \<noteq> 0
           then process_external_classifier repo (ClassifierID e) ?st1 else ?st1"
  from ok have "edges_exact repo ?st1" by (simp add: edges_exact_def)
  then have "edges_exact repo ?st2" by (simp add: edges_exact_classifier)
  with mid have 3: "edges_exact repo st3" by simp
  from run have run': "add_edges repo (Connectors e) st3 = Inr st4"
    by (simp add: add_edges_from_element_def)
  from add_edges_frame[OF run'] have f: "graph_nodes st4 = graph_nodes st3" by simp
  from 3 have a: "graph_edges st3 = first_per_triple (concat (map (owned_edges repo) (graph_nodes st3)))"
    and b: "edge_set st3 = edge_key_of ` set (graph_edges st3)"
    and c: "list_all (connectors_resolve repo) (graph_nodes st3)"
    by (simp_all add: edges_exact_def)
  from add_edges_exact[OF run' a b] add_edges_resolves[OF run'] c f resolved
  show "edges_exact repo (st4\<lparr>graph_nodes := graph_nodes st4 @ [element_node e obj linked],
                       processed_elements := (processed_elements st4)(ElementID e \<mapsto> element_node e obj linked)\<rparr>)"
    by (simp add: edges_exact_def owned_edges_element_node connectors_resolve_element_node)
qed

lemma edges_exact_traversal:
  "linked_diagram_objects n repo objs els st = Some (Inr (els', st')) \<Longrightarrow>
     edges_exact repo st \<Longrightarrow> edges_exact repo st'"
proof -
  let ?R = "\<lambda>repo st st'. edges_exact repo st \<longrightarrow> edges_exact repo st'"
  let ?Q = "\<lambda>repo (l::diagram_node list) st (l'::diagram_node list) st'.
              edges_exact repo st \<longrightarrow> edges_exact repo st'"
  have step: "\<And>(repo::repository) (d::diagram) (l::diagram_node list) st st2 (els::node list)
        (l'::diagram_node list) st'.
      DiagramID d \<notin> visited_diagrams st \<Longrightarrow>
      (edges_exact repo (st\<lparr>visited_diagrams := insert (DiagramID d) (visited_diagrams st)\<rparr>) \<longrightarrow>
         edges_exact repo st2) \<Longrightarrow>
      (edges_exact repo st2 \<longrightarrow> edges_exact repo st') \<Longrightarrow> edges_exact repo st \<longrightarrow> edges_exact repo st'"
    by (simp add: edges_exact_def)
  have bracket: "\<And>repo (e::element) obj st linked st3 st4.
        ElementID e \<notin> visited_elements st \<Longrightarrow>
        GetElementByID repo (ElementID e) = Some e \<Longrightarrow>
        (edges_exact repo (if ClassifierID e \<noteq> 0
           then process_external_classifier repo (ClassifierID e)
                  (st\<lparr>visited_elements := insert (ElementID e) (visited_elements st)\<rparr>)
           else st\<lparr>visited_elements := insert (ElementID e) (visited_elements st)\<rparr>) \<longrightarrow>
         edges_exact repo st3) \<Longrightarrow>
        add_edges_from_element repo e st3 = Inr st4 \<Longrightarrow>
        edges_exact repo st \<longrightarrow>
          edges_exact repo (st4\<lparr>graph_nodes := graph_nodes st4 @ [element_node e obj linked],
                       processed_elements := (processed_elements st4)(ElementID e \<mapsto> element_node e obj linked)\<rparr>)"
    by (rule edges_exact_bracket)
  have "linked_diagram_objects n repo objs els st = Some (Inr (els', st')) \<Longrightarrow>
      edges_exact repo st \<longrightarrow> edges_exact repo st'"
    by (rule traversal_rule(3)[where R = ?R and Q = ?Q, OF _ _ _ step bracket]) blast+
  then show "linked_diagram_objects n repo objs els st = Some (Inr (els', st')) \<Longrightarrow>
     edges_exact repo st \<Longrightarrow> edges_exact repo st'" by blast
qed

lemma generate_edges_exact:
  assumes "generate_graph_from_package n pkg repo = Some (Inr g)"
  shows "edges g = first_per_triple (concat (map (owned_edges repo) (nodes g)))"
    and "list_all (connectors_resolve repo) (nodes g)"
proof -
  from assms obtain st where pm: "process_main_diagram n repo pkg init_state = Some (Inr st)"
    and g: "g = \<lparr>nodes = graph_nodes st, edges = graph_edges st\<rparr>"
    by (rule generate_graph_cases)
  from pm have "edges_exact repo st"
  proof (cases rule: process_main_diagram_cases)
    case empty
    then show ?thesis by (simp add: edges_exact_def init_state_def)
  next
    case (main mainDiagram rest elems st2)
    have "edges_exact repo
        (init_state\<lparr>visited_diagrams := insert (DiagramID mainDiagram) (visited_diagrams init_state)\<rparr>)"
      by (simp add: edges_exact_def init_state_def)
    with main(2) have "edges_exact repo st2"
      by (simp add: main_diagram_objects_eq edges_exact_traversal)
    with main(3) show ?thesis by (simp add: edges_exact_def)
  qed
  with g show "edges g = first_per_triple (concat (map (owned_edges repo) (nodes g)))"
    and "list_all (connectors_resolve repo) (nodes g)"
    by (simp_all add: edges_exact_def)
qed

lemma element_node_connector_edge:
  assumes "generate_graph_from_package n pkg repo = Some (Inr g)"
    and "ElementNode i nm ty attrs linked pos \<in> set (nodes g)"
    and "GetElementByID repo i = Some e" and "c \<in> set (Connectors e)"
  shows "\<exists>ed. connector_edge repo c = Some ed \<and> edge_triple ed \<in> edge_triple ` set (edges g)"
proof -
  from generate_edges_exact(2)[OF assms(1)] assms(2)
  have "connectors_resolve repo (ElementNode i nm ty attrs linked pos)"
    unfolding list_all_iff by blast
  with assms(3,4) obtain ed where ed: "connector_edge repo c = Some ed"
    by (auto simp: list_all_iff)
  with assms(3,4) have "ed \<in> set (owned_edges repo (ElementNode i nm ty attrs linked pos))"
    by (force simp: map_filter_def)
  moreover from assms(2) have "owned_edges repo (ElementNode i nm ty attrs linked pos) \<in>
      set (map (owned_edges repo) (nodes g))"
    unfolding set_map by (rule imageI)
  ultimately have "ed \<in> set (concat (map (owned_edges repo) (nodes g)))"
    unfolding set_concat by blast
  then have "edge_triple ed \<in> edge_triple ` set (first_per_triple (concat (map (owned_edges repo) (nodes g))))"
    unfolding first_per_triple_triples by simp
  with generate_edges_exact(1)[OF assms(1)] ed show ?thesis by simp
qed


subsection \<open>Diagrams are listed once per visited diagram\<close>

lemma listed_diagram_ids_append [simp]:
  "listed_diagram_ids (xs @ ys) = listed_diagram_ids xs @ listed_diagram_ids ys"
  by (simp add: listed_diagram_ids_def)

lemma listed_diagram_ids_simps [simp]:
  "listed_diagram_ids [] = []"
  "listed_diagram_ids (nd # ns) = map diagram_node_id (listed_diagrams nd) @ listed_diagram_ids ns"
  by (simp_all add: listed_diagram_ids_def)

lemma diagrams_ext_refl: "diagrams_ext st st"
  by (simp add: diagrams_ext_def)

lemma linked_ext_refl: "linked_ext l st l st"
  by (simp add: linked_ext_def)

lemma diagrams_ext_trans:
  assumes "diagrams_ext st st'" "diagrams_ext st' st''"
  shows "diagrams_ext st st''"
proof -
  from assms(1) obtain new1 where 1: "visited_diagrams st \<subseteq> visited_diagrams st'"
    "graph_nodes st' = graph_nodes st @ new1" "distinct (listed_diagram_ids new1)"
    "set (listed_diagram_ids new1) = diagram_key ` (visited_diagrams st' - visited_diagrams st)"
    by (auto simp: diagrams_ext_def)
  from assms(2) obtain new2 where 2: "visited_diagrams st' \<subseteq> visited_diagrams st''"
    "graph_nodes st'' = graph_nodes st' @ new2" "distinct (listed_diagram_ids new2)"
    "set (listed_diagram_ids new2) = diagram_key ` (visited_diagrams st'' - visited_diagrams st')"
    by (auto simp: diagrams_ext_def)
  have disj: "set (listed_diagram_ids new1) \<inter> set (listed_diagram_ids new2) = {}"
    unfolding 1(4) 2(4) by (rule diagram_key_image_disjoint) auto
  have "graph_nodes st'' = graph_nodes st @ (new1 @ new2)" using 1 2 by simp
  moreover have "distinct (listed_diagram_ids (new1 @ new2))" using 1(3) 2(3) disj by simp
  moreover have "set (listed_diagram_ids (new1 @ new2)) =
      diagram_key ` (visited_diagrams st'' - visited_diagrams st)"
  proof -
    have "visited_diagrams st'' - visited_diagrams st =
        (visited_diagrams st' - visited_diagrams st) \<union> (visited_diagrams st'' - visited_diagrams st')"
      using 1(1) 2(1) by auto
    then show ?thesis using 1(4) 2(4) by (simp add: image_Un)
  qed
  ultimately show ?thesis unfolding diagrams_ext_def using 1(1) 2(1) by blast
qed

lemma linked_ext_step:
  fixes d :: diagram
  assumes fresh: "DiagramID d \<notin> visited_diagrams st"
    and inner: "diagrams_ext (st\<lparr>visited_diagrams := insert (DiagramID d) (visited_diagrams st)\<rparr>) st2"
    and rest: "linked_ext (l @ [DiagramNode (diagram_key (DiagramID d)) (Diagram_Name d) ''Diagram'' els]) st2 l' st'"
  shows "linked_ext l st l' st'"
proof -
  from inner obtain new1 where 1: "insert (DiagramID d) (visited_diagrams st) \<subseteq> visited_diagrams st2"
    "graph_nodes st2 = graph_nodes st @ new1" "distinct (listed_diagram_ids new1)"
    "set (listed_diagram_ids new1) =
       diagram_key ` (visited_diagrams st2 - insert (DiagramID d) (visited_diagrams st))"
    by (auto simp: diagrams_ext_def)
  from rest obtain new2 newl where 2: "visited_diagrams st2 \<subseteq> visited_diagrams st'"
    "graph_nodes st' = graph_nodes st2 @ new2"
    "l' = (l @ [DiagramNode (diagram_key (DiagramID d)) (Diagram_Name d) ''Diagram'' els]) @ newl"
    "distinct (listed_diagram_ids new2 @ map diagram_node_id newl)"
    "set (listed_diagram_ids new2 @ map diagram_node_id newl) =
       diagram_key ` (visited_diagrams st' - visited_diagrams st2)"
    by (auto simp: linked_ext_def)
  let ?dn = "DiagramNode (diagram_key (DiagramID d)) (Diagram_Name d) ''Diagram'' els"
  let ?A = "visited_diagrams st2 - insert (DiagramID d) (visited_diagrams st)"
  let ?B = "visited_diagrams st' - visited_diagrams st2"
  have dA: "diagram_key (DiagramID d) \<notin> diagram_key ` ?A"
    using diagram_key_inj by blast
  have dB: "diagram_key (DiagramID d) \<notin> diagram_key ` ?B"
    using diagram_key_inj 1(1) by blast
  have AB: "diagram_key ` ?A \<inter> diagram_key ` ?B = {}"
    by (rule diagram_key_image_disjoint) auto
  have split: "set (listed_diagram_ids new2) \<union> set (map diagram_node_id newl) = diagram_key ` ?B"
    using 2(5) by simp
  have d2: "distinct (listed_diagram_ids new2)" "distinct (map diagram_node_id newl)"
    "set (listed_diagram_ids new2) \<inter> set (map diagram_node_id newl) = {}"
    using 2(4) by auto
  have nodes: "graph_nodes st' = graph_nodes st @ (new1 @ new2)" using 1(2) 2(2) by simp
  have l': "l' = l @ (?dn # newl)" using 2(3) by simp
  have dist: "distinct (listed_diagram_ids (new1 @ new2) @ map diagram_node_id (?dn # newl))"
    using 1(3) d2 dA dB AB split 1(4) by auto
  have "visited_diagrams st' - visited_diagrams st = insert (DiagramID d) (?A \<union> ?B)"
    using 1(1) 2(1) fresh by auto
  then have sets: "set (listed_diagram_ids (new1 @ new2) @ map diagram_node_id (?dn # newl)) =
      diagram_key ` (visited_diagrams st' - visited_diagrams st)"
    using 1(4) split by (auto simp: image_Un)
  have sub: "visited_diagrams st \<subseteq> visited_diagrams st'" using 1(1) 2(1) by auto
  show ?thesis unfolding linked_ext_def
    using sub nodes l' dist sets by blast
qed

lemma process_external_classifier_listed:
  "\<exists>ext. graph_nodes (process_external_classifier repo c st) = graph_nodes st @ ext \<and>
         listed_diagram_ids ext = []"
  by (auto simp: process_external_classifier_def external_node_def split: option.splits)

lemma diagrams_ext_bracket:
  assumes mid: "linked_ext []
          (if ClassifierID e \<noteq> 0
           then process_external_classifier repo (ClassifierID e)
                  (st\<lparr>visited_elements := insert (ElementID e) (visited_elements st)\<rparr>)
           else st\<lparr>visited_elements := insert (ElementID e) (visited_elements st)\<rparr>) linked st3"
    and edges: "add_edges_from_element repo e st3 = Inr st4"
  shows "diagrams_ext st (st4\<lparr>graph_nodes := graph_nodes st4 @ [element_node e obj linked],
                       processed_elements := (processed_elements st4)(ElementID e \<mapsto> element_node e obj linked)\<rparr>)"
proof -
  let ?st1 = "st\<lparr>visited_elements := insert (ElementID e) (visited_elements st)\<rparr>"
  let ?st2 = "if ClassifierID e \<noteq> 0
           then process_external_classifier repo (ClassifierID e) ?st1 else ?st1"
  obtain ext where ext: "graph_nodes ?st2 = graph_nodes st @ ext" "listed_diagram_ids ext = []"
    using process_external_classifier_listed[of repo "ClassifierID e" ?st1] by (cases "ClassifierID e \<noteq> 0") auto
  have vd2: "visited_diagrams ?st2 = visited_diagrams st"
    by (simp add: process_external_classifier_frame)
  from mid obtain new where m: "visited_diagrams ?st2 \<subseteq> visited_diagrams st3"
    "graph_nodes st3 = graph_nodes ?st2 @ new"
    "distinct (listed_diagram_ids new @ map diagram_node_id linked)"
    "set (listed_diagram_ids new @ map diagram_node_id linked) =
       diagram_key ` (visited_diagrams st3 - visited_diagrams ?st2)"
    by (auto simp: linked_ext_def)
  from edges have f: "graph_nodes st4 = graph_nodes st3" "visited_diagrams st4 = visited_diagrams st3"
    using add_edges_frame by (auto simp: add_edges_from_element_def)
  have nodes: "graph_nodes st4 @ [element_node e obj linked] =
      graph_nodes st @ (ext @ new @ [element_node e obj linked])"
    using f(1) m(2) ext(1) by simp
  have listed: "listed_diagram_ids (ext @ new @ [element_node e obj linked]) =
      listed_diagram_ids new @ map diagram_node_id linked"
    using ext(2) by (simp add: element_node_def)
  show ?thesis unfolding diagrams_ext_def
    apply (rule conjI)
    using m(1) f(2) vd2 apply simp
    apply (rule exI[of _ "ext @ new @ [element_node e obj linked]"])
    using nodes listed m(3,4) f(2) vd2 apply simp
    done
qed

lemma diagrams_ext_traversal:
  "linked_diagram_objects n repo objs els st = Some (Inr (els', st')) \<Longrightarrow> diagrams_ext st st'"
proof -
  let ?R = "\<lambda>(repo::repository) st st'. diagrams_ext st st'"
  let ?Q = "\<lambda>(repo::repository) l st l' st'. linked_ext l st l' st'"
  have step: "\<And>(repo::repository) (d::diagram) l st st2 els l' st'.
        DiagramID d \<notin> visited_diagrams st \<Longrightarrow>
        diagrams_ext (st\<lparr>visited_diagrams := insert (DiagramID d) (visited_diagrams st)\<rparr>) st2 \<Longrightarrow>
        linked_ext (l @ [DiagramNode (diagram_key (DiagramID d)) (Diagram_Name d) ''Diagram'' els]) st2 l' st' \<Longrightarrow>
        linked_ext l st l' st'"
    by (rule linked_ext_step)
  have bracket: "\<And>repo (e::element) obj st linked st3 st4.
        ElementID e \<notin> visited_elements st \<Longrightarrow>
        GetElementByID repo (ElementID e) = Some e \<Longrightarrow>
        linked_ext []
          (if ClassifierID e \<noteq> 0
           then process_external_classifier repo (ClassifierID e)
                  (st\<lparr>visited_elements := insert (ElementID e) (visited_elements st)\<rparr>)
           else st\<lparr>visited_elements := insert (ElementID e) (visited_elements st)\<rparr>) linked st3 \<Longrightarrow>
        add_edges_from_element repo e st3 = Inr st4 \<Longrightarrow>
        diagrams_ext st (st4\<lparr>graph_nodes := graph_nodes st4 @ [element_node e obj linked],
                       processed_elements := (processed_elements st4)(ElementID e \<mapsto> element_node e obj linked)\<rparr>)"
    by (rule diagrams_ext_bracket)
  show "linked_diagram_objects n repo objs els st = Some (Inr (els', st')) \<Longrightarrow> diagrams_ext st st'"
    by (rule traversal_rule(3)[where R = ?R and Q = ?Q,
          OF diagrams_ext_refl diagrams_ext_trans linked_ext_refl step bracket])
qed

lemma generate_listed_diagrams_distinct:
  assumes "generate_graph_from_package n pkg repo = Some (Inr g)"
  shows "distinct (listed_diagram_ids (nodes g))"
proof -
  from assms obtain st where pm: "process_main_diagram n repo pkg init_state = Some (Inr st)"
    and g: "g = \<lparr>nodes = graph_nodes st, edges = graph_edges st\<rparr>"
    by (rule generate_graph_cases)
  from pm show ?thesis
  proof (cases rule: process_main_diagram_cases)
    case empty
    with g show ?thesis by (simp add: init_state_def)
  next
    case (main mainDiagram rest elems st2)
    from main(2) have "diagrams_ext
        (init_state\<lparr>visited_diagrams := insert (DiagramID mainDiagram) (visited_diagrams init_state)\<rparr>) st2"
      by (simp add: main_diagram_objects_eq diagrams_ext_traversal)
    then obtain new where n: "graph_nodes st2 = new" "distinct (listed_diagram_ids new)"
      "set (listed_diagram_ids new) = diagram_key ` (visited_diagrams st2 - {DiagramID mainDiagram})"
      by (auto simp: diagrams_ext_def init_state_def)
    have "diagram_key (DiagramID mainDiagram) \<notin> set (listed_diagram_ids new)"
      unfolding n(3) using diagram_key_inj by blast
    with n(1,2) main(3) g show ?thesis by simp
  qed
qed

lemma linked_ext_traversal:
  "process_linked_diagrams n repo ds l st = Some (Inr (l', st')) \<Longrightarrow> linked_ext l st l' st'"
proof -
  let ?R = "\<lambda>(repo::repository) st st'. diagrams_ext st st'"
  let ?Q = "\<lambda>(repo::repository) l st l' st'. linked_ext l st l' st'"
  have step: "\<And>(repo::repository) (d::diagram) l st st2 els l' st'.
        DiagramID d \<notin> visited_diagrams st \<Longrightarrow>
        diagrams_ext (st\<lparr>visited_diagrams := insert (DiagramID d) (visited_diagrams st)\<rparr>) st2 \<Longrightarrow>
        linked_ext (l @ [DiagramNode (diagram_key (DiagramID d)) (Diagram_Name d) ''Diagram'' els]) st2 l' st' \<Longrightarrow>
        linked_ext l st l' st'"
    by (rule linked_ext_step)
  have bracket: "\<And>repo (e::element) obj st linked st3 st4.
        ElementID e \<notin> visited_elements st \<Longrightarrow>
        GetElementByID repo (ElementID e) = Some e \<Longrightarrow>
        linked_ext []
          (if ClassifierID e \<noteq> 0
           then process_external_classifier repo (ClassifierID e)
                  (st\<lparr>visited_elements := insert (ElementID e) (visited_elements st)\<rparr>)
           else st\<lparr>visited_elements := insert (ElementID e) (visited_elements st)\<rparr>) linked st3 \<Longrightarrow>
        add_edges_from_element repo e st3 = Inr st4 \<Longrightarrow>
        diagrams_ext st (st4\<lparr>graph_nodes := graph_nodes st4 @ [element_node e obj linked],
                       processed_elements := (processed_elements st4)(ElementID e \<mapsto> element_node e obj linked)\<rparr>)"
    by (rule diagrams_ext_bracket)
  show "process_linked_diagrams n repo ds l st = Some (Inr (l', st')) \<Longrightarrow> linked_ext l st l' st'"
    by (rule traversal_rule(2)[where R = ?R and Q = ?Q,
          OF diagrams_ext_refl diagrams_ext_trans linked_ext_refl step bracket])
qed

lemma visited_diagram_skipped:
  "list_all (\<lambda>d. DiagramID d \<in> visited_diagrams st) ds \<Longrightarrow>
     process_linked_diagrams n repo ds linked st = Some (Inr (linked, st))"
  by (induction ds) simp_all

lemma process_linked_diagrams_marks:
  assumes "process_linked_diagrams n repo ds linked st = Some (Inr (linked', st'))"
  shows "visited_diagrams st \<subseteq> visited_diagrams st' \<and>
         list_all (\<lambda>d. DiagramID d \<in> visited_diagrams st') ds"
  using assms
proof (induction ds arbitrary: linked st)
  case Nil
  then show ?case by simp
next
  case (Cons d rest)
  from linked_ext_traversal[OF Cons.prems] have mono: "visited_diagrams st \<subseteq> visited_diagrams st'"
    by (simp add: linked_ext_def)
  show ?case
  proof (cases "DiagramID d \<in> visited_diagrams st")
    case True
    with Cons.prems have "process_linked_diagrams n repo rest linked st = Some (Inr (linked', st'))"
      by simp
    from Cons.IH[OF this] True mono show ?thesis by auto
  next
    case False
    with Cons.prems obtain els st2 where
      a: "linked_diagram_objects n repo (DiagramObjects d) []
            (st\<lparr>visited_diagrams := insert (DiagramID d) (visited_diagrams st)\<rparr>) = Some (Inr (els, st2))"
      and b: "process_linked_diagrams n repo rest
               (linked @ [DiagramNode (diagram_key (DiagramID d)) (Diagram_Name d) ''Diagram'' els])
               st2 = Some (Inr (linked', st'))"
      by (auto split: option.splits sum.splits prod.splits)
    from diagrams_ext_traversal[OF a] have "DiagramID d \<in> visited_diagrams st2"
      by (auto simp: diagrams_ext_def)
    with Cons.IH[OF b] mono show ?thesis by auto
  qed
qed

lemma process_element_diagrams_mono:
  assumes "process_element n repo e obj st = Some (Inr (r, st'))"
  shows "visited_diagrams st \<subseteq> visited_diagrams st'"
proof (cases "ElementID e \<in> visited_elements st")
  case True
  with assms show ?thesis by (cases n) auto
next
  case False
  with assms obtain k linked st3 st4 where c:
    "process_linked_diagrams k repo (Element_Diagrams e) []
       (if ClassifierID e \<noteq> 0
        then process_external_classifier repo (ClassifierID e)
               (st\<lparr>visited_elements := insert (ElementID e) (visited_elements st)\<rparr>)
        else st\<lparr>visited_elements := insert (ElementID e) (visited_elements st)\<rparr>) = Some (Inr (linked, st3))"
    "add_edges_from_element repo e st3 = Inr st4"
    "st' = st4\<lparr>graph_nodes := graph_nodes st4 @ [element_node e obj linked],
              processed_elements := (processed_elements st4)(ElementID e \<mapsto> element_node e obj linked)\<rparr>"
    by (rule process_element_fresh_cases)
  from process_linked_diagrams_marks[OF c(1)]
  have "visited_diagrams st \<subseteq> visited_diagrams st3"
    by (auto simp: process_external_classifier_frame split: if_splits)
  moreover from c(2) have "visited_diagrams st4 = visited_diagrams st3"
    using add_edges_frame by (auto simp: add_edges_from_element_def)
  ultimately show ?thesis using c(3) by simp
qed

lemma diagram_objects_diagrams_mono:
  "main_diagram_objects k repo objs els st = Some (Inr (els', st3)) \<or>
   linked_diagram_objects k repo objs els st = Some (Inr (els', st3)) \<Longrightarrow>
     visited_diagrams st \<subseteq> visited_diagrams st3"
  using diagrams_ext_traversal by (auto simp: main_diagram_objects_eq diagrams_ext_def)

subsection \<open>Classifiers of appended nodes are visited\<close>











subsection \<open>External nodes are the reduced nodes of classifiers\<close>








lemma is_external_simps [simp]:
  "is_external (external_node repo c)" "\<not> is_external (element_node e obj linked)"
  by (simp_all add: external_node_def element_node_def)




subsection \<open>More depth changes nothing, and the number of elements is depth enough\<close>

lemma fuel_mono:
  "process_element n repo e obj st = Some r \<Longrightarrow> n \<le> m \<Longrightarrow> process_element m repo e obj st = Some r"
  "process_linked_diagrams n repo ds l st = Some r2 \<Longrightarrow> n \<le> m \<Longrightarrow>
     process_linked_diagrams m repo ds l st = Some r2"
  "linked_diagram_objects n repo objs els st = Some r3 \<Longrightarrow> n \<le> m \<Longrightarrow>
     linked_diagram_objects m repo objs els st = Some r3"
proof (induction n repo e obj st and n repo ds l st and n repo objs els st
    arbitrary: r m and r2 m and r3 m
    rule: process_element_process_linked_diagrams_linked_diagram_objects.induct)
  case (1 repository element diag_object st)
  then show ?case by simp
next
  case (2 n repository element diag_object st)
  from "2.prems"(2) obtain k where m: "m = Suc k" and nk: "n \<le> k" by (cases m) auto
  show ?case
  proof (cases "ElementID element \<in> visited_elements st")
    case True
    with "2.prems"(1) m show ?thesis by simp
  next
    case False
    let ?st2 = "if ClassifierID element \<noteq> 0
                 then process_external_classifier repository (ClassifierID element)
                        (st\<lparr>visited_elements := insert (ElementID element) (visited_elements st)\<rparr>)
                 else st\<lparr>visited_elements := insert (ElementID element) (visited_elements st)\<rparr>"
    from False "2.prems"(1) obtain x where
      x: "process_linked_diagrams n repository (Element_Diagrams element) [] ?st2 = Some x"
      by (cases "process_linked_diagrams n repository (Element_Diagrams element) [] ?st2") auto
    from "2.IH"[OF False x nk]
    have "process_linked_diagrams k repository (Element_Diagrams element) [] ?st2 = Some x" .
    with x False "2.prems"(1) m show ?thesis by (simp split del: if_split)
  qed
next
  case (3 n repository linked st)
  then show ?case by simp
next
  case (4 n repository diagram rest linked st)
  show ?case
  proof (cases "DiagramID diagram \<in> visited_diagrams st")
    case True
    with "4.prems"(1) have "process_linked_diagrams n repository rest linked st = Some r2" by simp
    from "4.IH"(1)[OF True this "4.prems"(2)] True show ?thesis by simp
  next
    case False
    let ?st1 = "st\<lparr>visited_diagrams := insert (DiagramID diagram) (visited_diagrams st)\<rparr>"
    from False "4.prems"(1) obtain x where
      x: "linked_diagram_objects n repository (DiagramObjects diagram) [] ?st1 = Some x"
      by (cases "linked_diagram_objects n repository (DiagramObjects diagram) [] ?st1") auto
    from "4.IH"(2)[OF False x "4.prems"(2)]
    have y: "linked_diagram_objects m repository (DiagramObjects diagram) [] ?st1 = Some x" .
    show ?thesis
    proof (cases x)
      case (Inl err)
      with x y False "4.prems"(1) show ?thesis by simp
    next
      case (Inr p)
      obtain elementsInDiagram st2 where p: "p = (elementsInDiagram, st2)" by (cases p)
      from x Inr p False "4.prems"(1) have
        "process_linked_diagrams n repository rest
               (linked @ [DiagramNode (diagram_key (DiagramID diagram)) (Diagram_Name diagram)
                            ''Diagram'' elementsInDiagram]) st2 = Some r2" by simp
      from "4.IH"(3)[OF False x Inr p[symmetric] this "4.prems"(2)] y Inr p False
      show ?thesis by simp
    qed
  qed
next
  case (5 n repository elementsInDiagram st)
  then show ?case by simp
next
  case (6 n repository diag_object rest elementsInDiagram st)
  show ?case
  proof (cases "GetElementByID repository (Object_ElementID diag_object)")
    case None
    with "6.prems"(1) have "linked_diagram_objects n repository rest elementsInDiagram st = Some r3" by simp
    from "6.IH"(1)[OF None this "6.prems"(2)] None show ?thesis by simp
  next
    case (Some diag_element)
    show ?thesis
    proof (cases "ElementID diag_element \<in> visited_elements st")
      case True
      with Some "6.prems"(1) have "linked_diagram_objects n repository rest elementsInDiagram st = Some r3"
        by simp
      from "6.IH"(4)[OF Some _ this "6.prems"(2)] True Some show ?thesis by simp
    next
      case False
      from Some False "6.prems"(1) obtain x where
        x: "process_element n repository diag_element (Some diag_object) st = Some x"
        by (cases "process_element n repository diag_element (Some diag_object) st") auto
      from "6.IH"(2)[OF Some False x "6.prems"(2)]
      have y: "process_element m repository diag_element (Some diag_object) st = Some x" .
      show ?thesis
      proof (cases x)
        case (Inl err)
        with x y Some False "6.prems"(1) show ?thesis by simp
      next
        case (Inr p)
        obtain processedElement st2 where p: "p = (processedElement, st2)" by (cases p)
        from x Inr p Some False "6.prems"(1) have
          "linked_diagram_objects n repository rest
                   (case processedElement of
                      None \<Rightarrow> elementsInDiagram
                    | Some nd \<Rightarrow> elementsInDiagram @ [nd]) st2 = Some r3" by simp
        from "6.IH"(3)[OF Some False x Inr p[symmetric] this "6.prems"(2)] y Inr p Some False
        show ?thesis by simp
      qed
    qed
  qed
qed

lemma generate_fuel_mono:
  assumes "generate_graph_from_package n pkg repo = Some r" "n \<le> m"
  shows "generate_graph_from_package m pkg repo = Some r"
proof (cases "Package_Diagrams pkg")
  case Nil
  with assms show ?thesis
    by (simp add: generate_graph_from_package_def process_main_diagram_def)
next
  case (Cons mainDiagram rest)
  let ?st1 = "init_state\<lparr>visited_diagrams := insert (DiagramID mainDiagram) (visited_diagrams init_state)\<rparr>"
  from assms(1) Cons obtain x where
    x: "linked_diagram_objects n repo (DiagramObjects mainDiagram) [] ?st1 = Some x"
    by (cases "linked_diagram_objects n repo (DiagramObjects mainDiagram) [] ?st1")
       (auto simp: generate_graph_from_package_def process_main_diagram_def main_diagram_objects_eq)
  from fuel_mono(3)[OF x assms(2)] x assms(1) Cons show ?thesis
    by (simp add: generate_graph_from_package_def process_main_diagram_def main_diagram_objects_eq)
qed

lemma unvisited_mono:
  "nodes_ext st st' \<Longrightarrow> card (unvisited repo st') \<le> card (unvisited repo st)"
  by (rule card_mono) (auto simp: unvisited_def nodes_ext_def)

lemma terminates:
  "GetElementByID repo (ElementID e) = Some e \<Longrightarrow> card (unvisited repo st) < n \<Longrightarrow>
     process_element n repo e obj st \<noteq> None"
  "card (unvisited repo st) < n \<Longrightarrow> process_linked_diagrams n repo ds l st \<noteq> None"
  "card (unvisited repo st) < n \<Longrightarrow> linked_diagram_objects n repo objs els st \<noteq> None"
proof (induction n repo e obj st and n repo ds l st and n repo objs els st
    rule: process_element_process_linked_diagrams_linked_diagram_objects.induct)
  case (1 repository element diag_object st)
  then show ?case by simp
next
  case (2 n repository element diag_object st)
  show ?case
  proof (cases "ElementID element \<in> visited_elements st")
    case True
    then show ?thesis by simp
  next
    case False
    let ?st1 = "st\<lparr>visited_elements := insert (ElementID element) (visited_elements st)\<rparr>"
    let ?st2 = "if ClassifierID element \<noteq> 0
                 then process_external_classifier repository (ClassifierID element) ?st1 else ?st1"
    from "2.prems"(1) have "ElementID element \<in> ElementID ` set (Elements repository)"
      using GetElementByID_Some by blast
    with False have mem: "ElementID element \<in> unvisited repository st"
      by (simp add: unvisited_def)
    have "unvisited repository ?st1 \<subset> unvisited repository st"
      using mem by (auto simp: unvisited_def)
    then have "card (unvisited repository ?st1) < card (unvisited repository st)"
      by (intro psubset_card_mono) (simp_all add: unvisited_def)
    moreover have "nodes_ext ?st1 ?st2"
      by (simp add: nodes_ext_classifier nodes_ext_refl)
    ultimately have "card (unvisited repository ?st2) < n"
      using unvisited_mono[of ?st1 ?st2 repository] "2.prems"(2) by linarith
    from "2.IH"[OF False this] obtain x where
      x: "process_linked_diagrams n repository (Element_Diagrams element) [] ?st2 = Some x" by auto
    show ?thesis
    proof (cases x)
      case (Inl err)
      with x False show ?thesis by (simp split del: if_split)
    next
      case (Inr p)
      obtain linked st3 where p: "p = (linked, st3)" by (cases p)
      from x Inr p False show ?thesis
        by (cases "add_edges_from_element repository element st3") (simp_all split del: if_split)
    qed
  qed
next
  case (3 n repository linked st)
  then show ?case by simp
next
  case (4 n repository diagram rest linked st)
  show ?case
  proof (cases "DiagramID diagram \<in> visited_diagrams st")
    case True
    with "4.prems" "4.IH"(1) show ?thesis by simp
  next
    case False
    let ?st1 = "st\<lparr>visited_diagrams := insert (DiagramID diagram) (visited_diagrams st)\<rparr>"
    have c1: "card (unvisited repository ?st1) < n"
      using "4.prems" by (simp add: unvisited_def)
    from "4.IH"(2)[OF False c1] obtain x where
      x: "linked_diagram_objects n repository (DiagramObjects diagram) [] ?st1 = Some x" by auto
    show ?thesis
    proof (cases x)
      case (Inl err)
      with x False show ?thesis by simp
    next
      case (Inr p)
      obtain elementsInDiagram st2 where p: "p = (elementsInDiagram, st2)" by (cases p)
      from x Inr p have "nodes_ext ?st1 st2" using nodes_ext_traversal(3) by blast
      from unvisited_mono[OF this, of repository] c1 have "card (unvisited repository st2) < n" by simp
      from "4.IH"(3)[OF False x Inr p[symmetric] this] x Inr p False show ?thesis by simp
    qed
  qed
next
  case (5 n repository elementsInDiagram st)
  then show ?case by simp
next
  case (6 n repository diag_object rest elementsInDiagram st)
  show ?case
  proof (cases "GetElementByID repository (Object_ElementID diag_object)")
    case None
    with "6.prems" "6.IH"(1) show ?thesis by simp
  next
    case (Some diag_element)
    show ?thesis
    proof (cases "ElementID diag_element \<in> visited_elements st")
      case True
      with Some "6.prems" "6.IH"(4) show ?thesis by simp
    next
      case False
      from "6.IH"(2)[OF Some False GetElementByID_idem[OF Some] "6.prems"] obtain x where
        x: "process_element n repository diag_element (Some diag_object) st = Some x" by auto
      show ?thesis
      proof (cases x)
        case (Inl err)
        with x Some False show ?thesis by simp
      next
        case (Inr p)
        obtain processedElement st2 where p: "p = (processedElement, st2)" by (cases p)
        from x Inr p have "nodes_ext st st2"
          using nodes_ext_traversal(1) GetElementByID_idem[OF Some] by blast
        from unvisited_mono[OF this, of repository] "6.prems" have "card (unvisited repository st2) < n" by simp
        from "6.IH"(3)[OF Some False x Inr p[symmetric] this] x Inr p Some False show ?thesis by simp
      qed
    qed
  qed
qed

lemma generate_terminates:
  "generate_graph_from_package (Suc (length (Elements repo))) pkg repo \<noteq> None"
proof (cases "Package_Diagrams pkg")
  case Nil
  then show ?thesis
    by (simp add: generate_graph_from_package_def process_main_diagram_def)
next
  case (Cons mainDiagram rest)
  let ?st1 = "init_state\<lparr>visited_diagrams := insert (DiagramID mainDiagram) (visited_diagrams init_state)\<rparr>"
  have "card (unvisited repo ?st1) \<le> card (ElementID ` set (Elements repo))"
    by (rule card_mono) (auto simp: unvisited_def)
  also have "\<dots> \<le> length (Elements repo)"
    by (meson card_image_le card_length le_trans List.finite_set)
  finally have "card (unvisited repo ?st1) < Suc (length (Elements repo))" by simp
  from terminates(3)[OF this] Cons show ?thesis
    by (auto simp: generate_graph_from_package_def process_main_diagram_def main_diagram_objects_eq
        split: option.splits sum.splits prod.splits)
qed

subsection \<open>The element list of an expanded diagram\<close>

lemma placed_as_element_node:
  "placed_as (element_node e (Some obj) linked) obj \<longleftrightarrow> ElementID e = Object_ElementID obj"
  by (simp add: placed_as_def element_node_def)

lemma linked_diagram_objects_acc:
  "linked_diagram_objects n repo objs (a @ b) st =
     map_option (map_sum id (\<lambda>(l, s). (a @ l, s))) (linked_diagram_objects n repo objs b st)"
proof (induction objs arbitrary: b st)
  case Nil
  then show ?case by simp
next
  case (Cons obj rest)
  show ?case
  proof (cases "GetElementByID repo (Object_ElementID obj)")
    case None
    then show ?thesis using Cons.IH by simp
  next
    case (Some e)
    show ?thesis
    proof (cases "ElementID e \<in> visited_elements st")
      case True
      with Some show ?thesis using Cons.IH by simp
    next
      case False
      show ?thesis
      proof (cases "process_element n repo e (Some obj) st")
        case None
        with Some False show ?thesis by simp
      next
        case (Some x)
        note pe = this
        show ?thesis
        proof (cases x)
          case (Inl err)
          with pe \<open>GetElementByID repo (Object_ElementID obj) = Some e\<close> False show ?thesis by simp
        next
          case (Inr p)
          obtain r st2 where p: "p = (r, st2)" by (cases p)
          have "(case r of None \<Rightarrow> a @ b | Some nd \<Rightarrow> (a @ b) @ [nd]) =
              a @ (case r of None \<Rightarrow> b | Some nd \<Rightarrow> b @ [nd])"
            by (cases r) simp_all
          with pe Inr p \<open>GetElementByID repo (Object_ElementID obj) = Some e\<close> False
          show ?thesis using Cons.IH[of "case r of None \<Rightarrow> b | Some nd \<Rightarrow> b @ [nd]" st2] by simp
        qed
      qed
    qed
  qed
qed

lemma linked_diagram_objects_from_empty:
  assumes "linked_diagram_objects n repo objs els st = Some (Inr (els', st'))"
  obtains new where "els' = els @ new" "linked_diagram_objects n repo objs [] st = Some (Inr (new, st'))"
proof -
  from assms linked_diagram_objects_acc[of n repo objs els "[]" st]
  have "map_option (map_sum id (\<lambda>(l, s). (els @ l, s))) (linked_diagram_objects n repo objs [] st) =
      Some (Inr (els', st'))" by simp
  then obtain new where "linked_diagram_objects n repo objs [] st = Some (Inr (new, st'))" "els' = els @ new"
    by (cases "linked_diagram_objects n repo objs [] st")
       (auto simp: map_sum_def split: sum.splits prod.splits)
  with that show ?thesis by blast
qed

lemma linked_diagram_objects_append:
  "linked_diagram_objects n repo (xs @ ys) els st =
     (case linked_diagram_objects n repo xs els st of
        None \<Rightarrow> None
      | Some (Inl err) \<Rightarrow> Some (Inl err)
      | Some (Inr (els1, st1)) \<Rightarrow> linked_diagram_objects n repo ys els1 st1)"
proof (induction xs arbitrary: els st)
  case Nil
  then show ?case by simp
next
  case (Cons obj rest)
  show ?case
  proof (cases "GetElementByID repo (Object_ElementID obj)")
    case None
    then show ?thesis using Cons.IH by simp
  next
    case (Some e)
    show ?thesis
    proof (cases "ElementID e \<in> visited_elements st")
      case True
      with Some show ?thesis using Cons.IH by simp
    next
      case False
      with Some show ?thesis using Cons.IH
        by (simp split: option.splits sum.splits prod.splits)
    qed
  qed
qed

lemma linked_diagram_objects_single:
  assumes run: "linked_diagram_objects n repo [obj] els st = Some (Inr (els', st'))"
  shows "if resolvable repo obj \<and> Object_ElementID obj \<notin> visited_elements st
         then \<exists>nd. els' = els @ [nd] \<and> placed_as nd obj \<and> nd \<in> set (graph_nodes st') \<and>
                   Object_ElementID obj \<in> visited_elements st'
         else els' = els \<and> st' = st"
proof (cases "GetElementByID repo (Object_ElementID obj)")
  case None
  with run show ?thesis by (simp add: resolvable_def)
next
  case (Some e)
  then have id: "ElementID e = Object_ElementID obj" using GetElementByID_Some by blast
  show ?thesis
  proof (cases "ElementID e \<in> visited_elements st")
    case True
    with Some run id show ?thesis by simp
  next
    case False
    with Some run obtain r where pe: "process_element n repo e (Some obj) st = Some (Inr (r, st'))"
      and els': "els' = (case r of None \<Rightarrow> els | Some nd \<Rightarrow> els @ [nd])"
      by (auto split: option.splits sum.splits prod.splits)
    from pe False obtain k linked st3 st4 where c:
      "r = Some (element_node e (Some obj) linked)"
      "st' = st4\<lparr>graph_nodes := graph_nodes st4 @ [element_node e (Some obj) linked],
              processed_elements := (processed_elements st4)(ElementID e \<mapsto> element_node e (Some obj) linked)\<rparr>"
      by (rule process_element_fresh_cases)
    from process_element_fresh_result(3)[OF pe False] have "ElementID e \<in> visited_elements st'" .
    with c els' id Some False show ?thesis
      by (auto simp: resolvable_def placed_as_element_node)
  qed
qed

lemma entered_snoc:
  "k < length pre \<Longrightarrow> entered n repo st (pre @ [obj]) k = entered n repo st pre k"
  "entered n repo st (pre @ [obj]) (length pre) =
     (case state_when_reached n repo pre st of
        None \<Rightarrow> False
      | Some st_k \<Rightarrow> resolvable repo obj \<and> Object_ElementID obj \<notin> visited_elements st_k)"
  by (simp_all add: entered_def nth_append split: option.splits)

lemma placements_entered_snoc:
  "placements_entered n repo (pre @ [obj]) st =
     placements_entered n repo pre st @
       (if entered n repo st (pre @ [obj]) (length pre) then [obj] else [])"
proof -
  have "filter (entered n repo st (pre @ [obj])) [0..<length pre] =
      filter (entered n repo st pre) [0..<length pre]"
    by (rule filter_cong) (simp_all add: entered_snoc(1))
  moreover have "map (nth (pre @ [obj])) (filter (entered n repo st pre) [0..<length pre]) =
      map (nth pre) (filter (entered n repo st pre) [0..<length pre])"
    by (rule map_cong) (auto simp: nth_append)
  ultimately show ?thesis by (simp add: placements_entered_def)
qed

lemma linked_diagram_objects_entered:
  assumes "linked_diagram_objects n repo objs els st = Some (Inr (els', st'))"
  shows "\<exists>new. els' = els @ new \<and> list_all2 placed_as new (placements_entered n repo objs st) \<and>
           set new \<subseteq> set (graph_nodes st') \<and>
           subseq (placements_entered n repo objs st) objs \<and>
           (\<forall>obj \<in> set (placements_entered n repo objs st).
              resolvable repo obj \<and> Object_ElementID obj \<notin> visited_elements st) \<and>
           distinct (map Object_ElementID (placements_entered n repo objs st)) \<and>
           (\<forall>obj \<in> set objs. resolvable repo obj \<longrightarrow> Object_ElementID obj \<in> visited_elements st')"
  using assms
proof (induction objs arbitrary: els' st' rule: rev_induct)
  case Nil
  then show ?case by (simp add: placements_entered_def)
next
  case (snoc obj pre)
  from snoc.prems obtain els1 st1 where
    pre: "linked_diagram_objects n repo pre els st = Some (Inr (els1, st1))"
    and last: "linked_diagram_objects n repo [obj] els1 st1 = Some (Inr (els', st'))"
    by (auto simp: linked_diagram_objects_append split: option.splits sum.splits prod.splits)
  from snoc.IH[OF pre] obtain new1 where ih: "els1 = els @ new1"
    "list_all2 placed_as new1 (placements_entered n repo pre st)"
    "set new1 \<subseteq> set (graph_nodes st1)"
    "subseq (placements_entered n repo pre st) pre"
    "\<forall>obj \<in> set (placements_entered n repo pre st).
        resolvable repo obj \<and> Object_ElementID obj \<notin> visited_elements st"
    "distinct (map Object_ElementID (placements_entered n repo pre st))"
    "\<forall>obj \<in> set pre. resolvable repo obj \<longrightarrow> Object_ElementID obj \<in> visited_elements st1"
    by blast
  from pre obtain l where "linked_diagram_objects n repo pre [] st = Some (Inr (l, st1))"
    by (rule linked_diagram_objects_from_empty)
  then have reached: "state_when_reached n repo pre st = Some st1"
    by (simp add: state_when_reached_def)
  from pre have mono1: "visited_elements st \<subseteq> visited_elements st1"
    using nodes_ext_traversal(3) by (auto simp: nodes_ext_def)
  from last have ext2: "nodes_ext st1 st'" by (rule nodes_ext_traversal(3))
  then have mono2: "visited_elements st1 \<subseteq> visited_elements st'"
    and nodes2: "set (graph_nodes st1) \<subseteq> set (graph_nodes st')"
    by (auto simp: nodes_ext_def)
  have sub: "set (placements_entered n repo pre st) \<subseteq> set pre"
    using list_emb_set[OF ih(4)] by blast
  let ?E = "resolvable repo obj \<and> Object_ElementID obj \<notin> visited_elements st1"
  have ent: "entered n repo st (pre @ [obj]) (length pre) = ?E"
    by (simp add: entered_snoc(2) reached)
  show ?case
  proof (cases ?E)
    case True
    with linked_diagram_objects_single[OF last] obtain nd where
      nd: "els' = els1 @ [nd]" "placed_as nd obj" "nd \<in> set (graph_nodes st')"
      "Object_ElementID obj \<in> visited_elements st'" by auto
    have pe: "placements_entered n repo (pre @ [obj]) st = placements_entered n repo pre st @ [obj]"
      using True ent by (simp add: placements_entered_snoc)
    have 1: "els' = els @ (new1 @ [nd])" using nd(1) ih(1) by simp
    have 2: "list_all2 placed_as (new1 @ [nd]) (placements_entered n repo pre st @ [obj])"
      using ih(2) nd(2) by (simp add: list_all2_appendI)
    have 3: "set (new1 @ [nd]) \<subseteq> set (graph_nodes st')" using ih(3) nodes2 nd(3) by auto
    have 4: "subseq (placements_entered n repo pre st @ [obj]) (pre @ [obj])"
      using ih(4) by (simp add: list_emb_append_mono)
    have 5: "\<forall>p \<in> set (placements_entered n repo pre st @ [obj]).
        resolvable repo p \<and> Object_ElementID p \<notin> visited_elements st"
      using ih(5) True mono1 by auto
    have "Object_ElementID obj \<notin> Object_ElementID ` set (placements_entered n repo pre st)"
      using True ih(5,7) sub by auto
    then have 6: "distinct (map Object_ElementID (placements_entered n repo pre st @ [obj]))"
      using ih(6) by simp
    have 7: "\<forall>p \<in> set (pre @ [obj]). resolvable repo p \<longrightarrow> Object_ElementID p \<in> visited_elements st'"
      using ih(7) mono2 nd(4) by auto
    from 1 2 3 4 5 6 7 show ?thesis unfolding pe by blast
  next
    case False
    with linked_diagram_objects_single[OF last] have same: "els' = els1" "st' = st1" by auto
    have pe: "placements_entered n repo (pre @ [obj]) st = placements_entered n repo pre st"
      using False ent by (simp add: placements_entered_snoc)
    have 4: "subseq (placements_entered n repo pre st) (pre @ [obj])"
      using ih(4) by (rule list_emb_prefix)
    have 7: "\<forall>p \<in> set (pre @ [obj]). resolvable repo p \<longrightarrow> Object_ElementID p \<in> visited_elements st'"
      using ih(7) False same by auto
    from ih same 4 7 show ?thesis unfolding pe by blast
  qed
qed

section \<open>The claims\<close>

text \<open>
  Claim C1, as stated: in the scenario the node list is the package node, then A, then B.
  This fails: \<^verbatim>\<open>process_main_diagram\<close> appends the package node after its loop over the
  diagram objects (line 88), so the package node is the last node, not the first.
\<close>

theorem scenario_package_node_first_counterexample:
  "generate_graph_from_package 1 scenario_P scenario_repo \<noteq>
     Some (Inr \<lparr>nodes = [PackageNode ''P'' ''Package''
                            [DiagramNode ''D5'' ''D'' ''Diagram'' [scenario_node_A, scenario_node_B]],
                         scenario_node_A, scenario_node_B],
                edges = [scenario_edge]\<rparr>)"
  by (simp add: scenario_defs traversal_defs)

text \<open>
  Claim C1, amended: for a package whose single diagram places exactly A (id 1, classifier 0,
  no connectors, no linked diagrams) and B (id 2, classifier 0, no linked diagrams, one
  connector from 1 to 2 of type Association named uses), every run of depth at least one
  returns the nodes A, B and then the package node (whose diagram lists A and B), and the
  one edge from 1 to 2.
\<close>

theorem scenario_nodes_and_edges:
  fixes P :: package and D :: diagram and A B :: element and c :: connector
    and place_A place_B :: diagram_object
  assumes "Package_Diagrams P = [D]" "DiagramObjects D = [place_A, place_B]"
    and "Object_ElementID place_A = 1" "Object_ElementID place_B = 2"
    and "GetElementByID repo 1 = Some A" "GetElementByID repo 2 = Some B"
    and "ClassifierID A = 0" "Connectors A = []" "Element_Diagrams A = []"
    and "ClassifierID B = 0" "Connectors B = [c]" "Element_Diagrams B = []"
    and "ClientID c = 1" "SupplierID c = 2"
    and "Connector_Type c = ''Association''" "Connector_Name c = ''uses''"
  shows "generate_graph_from_package (Suc n) P repo =
     Some (Inr \<lparr>nodes = [element_node A (Some place_A) [], element_node B (Some place_B) [],
                         PackageNode (Package_Name P) ''Package''
                           [DiagramNode (diagram_key (DiagramID D)) (Diagram_Name D) ''Diagram''
                              [element_node A (Some place_A) [], element_node B (Some place_B) []]]],
                edges = [\<lparr>edge_from = 1, edge_to = 2, edge_type = ''Association'',
                          edge_name = ''uses''\<rparr>]\<rparr>)"
proof -
  have "ElementID A = 1" and "ElementID B = 2"
    using assms(5,6) GetElementByID_Some by blast+
  with assms show ?thesis
    by (simp add: generate_graph_from_package_def process_main_diagram_def init_state_def
        add_edges_from_element_def)
qed

text \<open>The amended claim at the scenario itself.\<close>

theorem scenario_nodes_and_edges_witness:
  "generate_graph_from_package (Suc 0) scenario_P scenario_repo =
     Some (Inr \<lparr>nodes = [scenario_node_A, scenario_node_B,
                         PackageNode ''P'' ''Package''
                           [DiagramNode ''D5'' ''D'' ''Diagram'' [scenario_node_A, scenario_node_B]]],
                edges = [scenario_edge]\<rparr>)"
  using scenario_nodes_and_edges [of scenario_P scenario_D scenario_place_A scenario_place_B
      scenario_repo scenario_A scenario_B
      "\<lparr>ClientID = 1, SupplierID = 2, Connector_Type = ''Association'', Connector_Name = ''uses''\<rparr>" 0]
  by (simp add: scenario_defs traversal_defs)

text \<open>
  Claim C2: no failed lookup ever aborts the export. The code breaks this for connectors:
  \<^verbatim>\<open>process_main_diagram\<close>, \<^verbatim>\<open>process_linked_diagrams\<close> and
  \<^verbatim>\<open>process_external_classifier\<close> test the looked-up element before using it, while
  \<^verbatim>\<open>add_edges_from_element\<close> reads \<^verbatim>\<open>targetElement.ElementID\<close> of a supplier that did
  not resolve. With one element E on the diagram, whose connector names the absent
  supplier 99, the export raises \<^verbatim>\<open>AttributeError\<close> at every depth.
\<close>

theorem dangling_supplier_raises:
  "generate_graph_from_package (Suc n) dangling_P dangling_repo = Some (Inl AttributeError)"
  by (simp add: scenario_defs traversal_defs)

text \<open>
  Claim C3, as stated: the element list of an expanded diagram has one entry per resolvable
  diagram object, an already visited element being entered again with its node. This fails:
  both loops guard the call with \<^verbatim>\<open>ElementID not in visited_elements\<close> and append nothing
  otherwise. The diagram that places A twice has two resolvable diagram objects, and its
  exported element list has the one entry A.
\<close>

theorem reused_placement_counterexample:
  "generate_graph_from_package 1 twice_A_P scenario_repo =
     Some (Inr \<lparr>nodes = [scenario_node_A, PackageNode ''P'' ''Package''
                            [DiagramNode ''D5'' ''D'' ''Diagram'' [scenario_node_A]]],
                edges = []\<rparr>) \<and>
   filter (resolvable scenario_repo) (DiagramObjects twice_A_D) = [scenario_place_A, scenario_place_A]"
  by (simp add: scenario_defs traversal_defs resolvable_def)

text \<open>
  Claim C3, amended: for every diagram expanded during traversal (the loop of the main
  diagram or of a linked diagram, from any state), the list of elements grows by exactly one
  node per placement that the loop enters, in placement order. The entered placements are
  those whose element resolves and is not visited in the state in which the loop reaches
  them (\<open>placements_entered\<close>); every other placement, so every placement of an element that
  is already visited, adds nothing. Each new entry stands for its placement (identifier and
  coordinates) and is a node of the graph. The entered placements are a subsequence of the
  diagram objects, each of them resolves to an element that was not visited when the loop
  began, no two of them name the same element, and after the loop the element of every
  resolvable placement is visited.
\<close>

theorem diagram_elements_are_fresh_placements:
  assumes "main_diagram_objects n repo objs els st = Some (Inr (els', st')) \<or>
           linked_diagram_objects n repo objs els st = Some (Inr (els', st'))"
  shows "\<exists>new. els' = els @ new \<and> list_all2 placed_as new (placements_entered n repo objs st) \<and>
           set new \<subseteq> set (graph_nodes st') \<and>
           subseq (placements_entered n repo objs st) objs \<and>
           (\<forall>obj \<in> set (placements_entered n repo objs st).
              resolvable repo obj \<and> Object_ElementID obj \<notin> visited_elements st) \<and>
           distinct (map Object_ElementID (placements_entered n repo objs st)) \<and>
           (\<forall>obj \<in> set objs. resolvable repo obj \<longrightarrow> Object_ElementID obj \<in> visited_elements st')"
  using assms linked_diagram_objects_entered by (simp add: main_diagram_objects_eq)

text \<open>
  The amended claim at the main diagram that places A twice: the first placement is
  entered, the second finds A visited, and the element list is the one node of A.
\<close>

theorem diagram_elements_are_fresh_placements_witness:
  "(\<exists>st'. main_diagram_objects 1 scenario_repo (DiagramObjects twice_A_D) [] init_state =
           Some (Inr ([scenario_node_A], st'))) \<and>
   placements_entered 1 scenario_repo (DiagramObjects twice_A_D) init_state = [scenario_place_A] \<and>
   (\<exists>new. [scenario_node_A] = [] @ new \<and> list_all2 placed_as new [scenario_place_A])"
proof -
  have "\<exists>st'. main_diagram_objects 1 scenario_repo (DiagramObjects twice_A_D) [] init_state =
           Some (Inr ([scenario_node_A], st'))"
    by (simp add: scenario_defs traversal_defs)
  then obtain st' where run: "main_diagram_objects 1 scenario_repo (DiagramObjects twice_A_D) []
      init_state = Some (Inr ([scenario_node_A], st'))" ..
  have pe: "placements_entered 1 scenario_repo (DiagramObjects twice_A_D) init_state = [scenario_place_A]"
    by (simp add: placements_entered_def entered_def state_when_reached_def resolvable_def
        scenario_defs traversal_defs upt_rec)
  from diagram_elements_are_fresh_placements[OF disjI1[OF run]] run pe show ?thesis by auto
qed

text \<open>
  Claim C4: in the graph that \<^verbatim>\<open>generate_graph_from_package\<close> returns, no two element or
  external nodes carry the same identifier.
\<close>

theorem no_duplicate_nodes:
  assumes "generate_graph_from_package n pkg repo = Some (Inr g)"
  shows "distinct (node_ids (nodes g))"
proof -
  from assms obtain st where pm: "process_main_diagram n repo pkg init_state = Some (Inr st)"
    and g: "g = \<lparr>nodes = graph_nodes st, edges = graph_edges st\<rparr>"
    by (rule generate_graph_cases)
  from pm show ?thesis
  proof (cases rule: process_main_diagram_cases)
    case empty
    with g show ?thesis by (simp add: init_state_def)
  next
    case (main mainDiagram rest elems st2)
    from main_diagram_objects_nodes_ext[OF main(2)]
    obtain new where "graph_nodes st2 = new" "distinct (node_ids new)"
      by (auto simp: nodes_ext_def init_state_def)
    with main(3) g show ?thesis by simp
  qed
qed

text \<open>The witness places A twice on the diagram: A is emitted once.\<close>

theorem no_duplicate_nodes_witness:
  "generate_graph_from_package 1 twice_A_P scenario_repo =
     Some (Inr \<lparr>nodes = [scenario_node_A, PackageNode ''P'' ''Package''
                            [DiagramNode ''D5'' ''D'' ''Diagram'' [scenario_node_A]]],
                edges = []\<rparr>) \<and>
   distinct (node_ids [scenario_node_A, PackageNode ''P'' ''Package''
                            [DiagramNode ''D5'' ''D'' ''Diagram'' [scenario_node_A]]])"
proof -
  have run: "generate_graph_from_package 1 twice_A_P scenario_repo =
     Some (Inr \<lparr>nodes = [scenario_node_A, PackageNode ''P'' ''Package''
                            [DiagramNode ''D5'' ''D'' ''Diagram'' [scenario_node_A]]],
                edges = []\<rparr>)"
    by (simp add: scenario_defs traversal_defs)
  from no_duplicate_nodes[OF run] run show ?thesis by simp
qed

text \<open>
  Claim C5: in the graph that \<^verbatim>\<open>generate_graph_from_package\<close> returns, the edges are
  exactly the first edge per triple of source identifier, target identifier and connector
  type, taken over the connectors of the element nodes in the order of the nodes and of
  \<^verbatim>\<open>element.Connectors\<close>: connectors that share a triple collapse to the edge of the first
  one encountered, and no two edges share a triple.
\<close>

theorem no_duplicate_edges:
  assumes "generate_graph_from_package n pkg repo = Some (Inr g)"
  shows "edges g = first_per_triple (concat (map (owned_edges repo) (nodes g))) \<and>
         distinct (map edge_triple (edges g))"
  using generate_edges_exact(1)[OF assms] first_per_triple_distinct by simp

text \<open>
  The witness has three connectors of B: uses and owns share the triple from 1 to 2 of type
  Association, needs lies between them. The edges are uses and needs: owns collapsed into
  uses, the first one encountered.
\<close>

theorem no_duplicate_edges_witness:
  "generate_graph_from_package 1 scenario_P trio_repo =
     Some (Inr \<lparr>nodes = [scenario_node_A, scenario_node_B, PackageNode ''P'' ''Package''
                            [DiagramNode ''D5'' ''D'' ''Diagram'' [scenario_node_A, scenario_node_B]]],
                edges = [scenario_edge, trio_edge_needs]\<rparr>) \<and>
   [scenario_edge, trio_edge_needs] =
     first_per_triple (concat (map (owned_edges trio_repo)
        [scenario_node_A, scenario_node_B, PackageNode ''P'' ''Package''
           [DiagramNode ''D5'' ''D'' ''Diagram'' [scenario_node_A, scenario_node_B]]])) \<and>
   concat (map (owned_edges trio_repo)
        [scenario_node_A, scenario_node_B, PackageNode ''P'' ''Package''
           [DiagramNode ''D5'' ''D'' ''Diagram'' [scenario_node_A, scenario_node_B]]]) =
     [scenario_edge, trio_edge_needs,
      \<lparr>edge_from = 1, edge_to = 2, edge_type = ''Association'', edge_name = ''owns''\<rparr>] \<and>
   distinct (map edge_triple [scenario_edge, trio_edge_needs])"
proof -
  have run: "generate_graph_from_package 1 scenario_P trio_repo =
     Some (Inr \<lparr>nodes = [scenario_node_A, scenario_node_B, PackageNode ''P'' ''Package''
                            [DiagramNode ''D5'' ''D'' ''Diagram'' [scenario_node_A, scenario_node_B]]],
                edges = [scenario_edge, trio_edge_needs]\<rparr>)"
    by (simp add: scenario_defs traversal_defs)
  have owned: "concat (map (owned_edges trio_repo)
        [scenario_node_A, scenario_node_B, PackageNode ''P'' ''Package''
           [DiagramNode ''D5'' ''D'' ''Diagram'' [scenario_node_A, scenario_node_B]]]) =
     [scenario_edge, trio_edge_needs,
      \<lparr>edge_from = 1, edge_to = 2, edge_type = ''Association'', edge_name = ''owns''\<rparr>]"
    by (simp add: scenario_defs GetElementByID_def connector_edge_def map_filter_simps)
  from no_duplicate_edges[OF run] run owned show ?thesis by simp
qed

text \<open>
  Claim C6: each diagram is expanded at most once across the export, under the one set
  \<^verbatim>\<open>visited_diagrams\<close> that the main diagram and the linked diagrams share. In the graph
  that is returned, the diagram identifiers listed by the nodes (package node and element
  nodes) are pairwise different: no diagram is listed a second time. A call of
  \<^verbatim>\<open>process_linked_diagrams\<close> on diagrams that are all visited returns the list and the
  state it was given: nothing is traversed, nothing is listed, no node and no edge is added.
  Every call of \<^verbatim>\<open>process_linked_diagrams\<close> leaves all its diagrams visited, so a second
  call on them adds nothing; and no call of \<^verbatim>\<open>process_linked_diagrams\<close>, of
  \<^verbatim>\<open>process_element\<close> or of a loop over diagram objects ever takes a diagram out of the
  set.
\<close>

theorem diagram_listed_once:
  "(generate_graph_from_package n pkg repo = Some (Inr g) \<longrightarrow>
      distinct (listed_diagram_ids (nodes g))) \<and>
   (list_all (\<lambda>d. DiagramID d \<in> visited_diagrams st) ds \<longrightarrow>
      process_linked_diagrams k repo ds linked st = Some (Inr (linked, st))) \<and>
   (process_linked_diagrams k repo ds linked st = Some (Inr (linked', st')) \<longrightarrow>
      visited_diagrams st \<subseteq> visited_diagrams st' \<and>
      list_all (\<lambda>d. DiagramID d \<in> visited_diagrams st') ds \<and>
      process_linked_diagrams k repo ds linked' st' = Some (Inr (linked', st'))) \<and>
   (process_element k repo e obj st = Some (Inr (r, st'')) \<longrightarrow>
      visited_diagrams st \<subseteq> visited_diagrams st'') \<and>
   (main_diagram_objects k repo objs els st = Some (Inr (els', st3)) \<or>
    linked_diagram_objects k repo objs els st = Some (Inr (els', st3)) \<longrightarrow>
      visited_diagrams st \<subseteq> visited_diagrams st3)"
proof (intro conjI impI)
  assume "generate_graph_from_package n pkg repo = Some (Inr g)"
  then show "distinct (listed_diagram_ids (nodes g))" by (rule generate_listed_diagrams_distinct)
next
  assume "list_all (\<lambda>d. DiagramID d \<in> visited_diagrams st) ds"
  then show "process_linked_diagrams k repo ds linked st = Some (Inr (linked, st))"
    by (rule visited_diagram_skipped)
next
  assume run: "process_linked_diagrams k repo ds linked st = Some (Inr (linked', st'))"
  from process_linked_diagrams_marks[OF run]
  show "visited_diagrams st \<subseteq> visited_diagrams st'"
    and marked: "list_all (\<lambda>d. DiagramID d \<in> visited_diagrams st') ds" by simp_all
  from marked show "process_linked_diagrams k repo ds linked' st' = Some (Inr (linked', st'))"
    by (rule visited_diagram_skipped)
next
  assume "process_element k repo e obj st = Some (Inr (r, st''))"
  then show "visited_diagrams st \<subseteq> visited_diagrams st''" by (rule process_element_diagrams_mono)
next
  assume "main_diagram_objects k repo objs els st = Some (Inr (els', st3)) \<or>
    linked_diagram_objects k repo objs els st = Some (Inr (els', st3))"
  then show "visited_diagrams st \<subseteq> visited_diagrams st3" by (rule diagram_objects_diagrams_mono)
qed

text \<open>
  In the witness the main diagram 5 places the element 1, which links the diagram 7; the
  diagram 7 places 2 and 3; 2 links the diagram 7 again and 3 links the main diagram 5. The
  nodes come out as 2, 3, 1: the diagram 7 is not walked again under 2 (that would emit 3
  before 2), and neither 7 nor 5 is listed a second time. The call of
  \<^verbatim>\<open>process_linked_diagrams\<close> for the element 1 expands and lists the diagram 7, leaves it
  visited, and a second call on the result changes nothing.
\<close>

theorem diagram_listed_once_witness:
  "generate_graph_from_package 2 cycle_P cycle_repo =
     Some (Inr \<lparr>nodes = [cycle_node_2, cycle_node_3, cycle_node_1,
                         PackageNode ''P'' ''Package'' [DiagramNode ''D5'' ''D'' ''Diagram'' [cycle_node_1]]],
                edges = []\<rparr>) \<and>
   listed_diagram_ids [cycle_node_2, cycle_node_3, cycle_node_1,
                       PackageNode ''P'' ''Package'' [DiagramNode ''D5'' ''D'' ''Diagram'' [cycle_node_1]]] =
     [''D7'', ''D5''] \<and>
   distinct [''D7'', ''D5''] \<and>
   process_linked_diagrams 1 cycle_repo [cycle_D7, cycle_D5] []
       (init_state\<lparr>visited_diagrams := {5, 7}\<rparr>) =
     Some (Inr ([], init_state\<lparr>visited_diagrams := {5, 7}\<rparr>)) \<and>
   (\<exists>st'. process_linked_diagrams 1 cycle_repo [cycle_D7] [] (init_state\<lparr>visited_diagrams := {5}\<rparr>) =
            Some (Inr ([DiagramNode ''D7'' ''Detail'' ''Diagram'' [cycle_node_2, cycle_node_3]], st')) \<and>
          visited_diagrams st' = {5, 7} \<and>
          process_linked_diagrams 1 cycle_repo [cycle_D7]
              [DiagramNode ''D7'' ''Detail'' ''Diagram'' [cycle_node_2, cycle_node_3]] st' =
            Some (Inr ([DiagramNode ''D7'' ''Detail'' ''Diagram'' [cycle_node_2, cycle_node_3]], st'))) \<and>
   (\<exists>r st''. process_element 2 cycle_repo cycle_E1 (Some scenario_place_A)
                 (init_state\<lparr>visited_diagrams := {5}\<rparr>) = Some (Inr (r, st'')) \<and>
             {5} \<subseteq> visited_diagrams st'') \<and>
   (\<exists>els' st3. linked_diagram_objects 1 cycle_repo (DiagramObjects cycle_D7) []
                  (init_state\<lparr>visited_diagrams := {5, 7}\<rparr>) = Some (Inr (els', st3)) \<and>
               {5, 7} \<subseteq> visited_diagrams st3)"
proof -
  let ?g = "\<lparr>nodes = [cycle_node_2, cycle_node_3, cycle_node_1,
                         PackageNode ''P'' ''Package'' [DiagramNode ''D5'' ''D'' ''Diagram'' [cycle_node_1]]],
              edges = []\<rparr>"
  let ?seen = "init_state\<lparr>visited_diagrams := {5, 7}\<rparr>"
  let ?main = "init_state\<lparr>visited_diagrams := {5}\<rparr>"
  let ?l = "[DiagramNode ''D7'' ''Detail'' ''Diagram'' [cycle_node_2, cycle_node_3]]"
  have run: "generate_graph_from_package 2 cycle_P cycle_repo = Some (Inr ?g)"
    by (simp add: cycle_defs scenario_defs traversal_defs numeral_2_eq_2)
  have listed: "listed_diagram_ids (nodes ?g) = [''D7'', ''D5'']"
    by (simp add: cycle_defs)
  have visited: "list_all (\<lambda>d. DiagramID d \<in> visited_diagrams ?seen) [cycle_D7, cycle_D5]"
    by (simp add: cycle_defs)
  have "\<exists>st'. process_linked_diagrams 1 cycle_repo [cycle_D7] [] ?main = Some (Inr (?l, st')) \<and>
      visited_diagrams st' = {5, 7}"
    by (auto simp add: cycle_defs scenario_defs traversal_defs)
  then obtain st' where pld: "process_linked_diagrams 1 cycle_repo [cycle_D7] [] ?main = Some (Inr (?l, st'))"
    and vd: "visited_diagrams st' = {5, 7}" by blast
  have "\<exists>r st''. process_element 2 cycle_repo cycle_E1 (Some scenario_place_A) ?main = Some (Inr (r, st''))"
    by (simp add: cycle_defs scenario_defs traversal_defs numeral_2_eq_2)
  then obtain r st'' where pe: "process_element 2 cycle_repo cycle_E1 (Some scenario_place_A) ?main =
      Some (Inr (r, st''))" by blast
  have "\<exists>els' st3. linked_diagram_objects 1 cycle_repo (DiagramObjects cycle_D7) [] ?seen =
      Some (Inr (els', st3))"
    by (simp add: cycle_defs scenario_defs traversal_defs)
  then obtain els' st3 where ldo: "linked_diagram_objects 1 cycle_repo (DiagramObjects cycle_D7) [] ?seen =
      Some (Inr (els', st3))" by blast
  have 1: "distinct (listed_diagram_ids (nodes ?g))"
    using diagram_listed_once[of 2 cycle_P cycle_repo ?g] run by blast
  have 2: "process_linked_diagrams 1 cycle_repo [cycle_D7, cycle_D5] [] ?seen = Some (Inr ([], ?seen))"
    using diagram_listed_once[of _ _ cycle_repo _ ?seen "[cycle_D7, cycle_D5]" 1 "[]"] visited by blast
  have 3: "process_linked_diagrams 1 cycle_repo [cycle_D7] ?l st' = Some (Inr (?l, st'))"
    using diagram_listed_once[of _ _ cycle_repo _ ?main "[cycle_D7]" 1 "[]" ?l st'] pld by blast
  have 4: "visited_diagrams ?main \<subseteq> visited_diagrams st''"
    using diagram_listed_once[of _ _ cycle_repo _ ?main _ 2 _ _ _ cycle_E1 "Some scenario_place_A" r st'']
      pe by blast
  have 5: "visited_diagrams ?seen \<subseteq> visited_diagrams st3"
    using diagram_listed_once[of _ _ cycle_repo _ ?seen _ 1 _ _ _ _ _ _ _ "DiagramObjects cycle_D7" "[]"
        els' st3] ldo by blast
  from 4 have a4: "{5} \<subseteq> visited_diagrams st''" by simp
  from 5 have a5: "{5, 7} \<subseteq> visited_diagrams st3" by simp
  from pld vd 3 have a: "\<exists>st'. process_linked_diagrams 1 cycle_repo [cycle_D7] [] ?main = Some (Inr (?l, st')) \<and>
          visited_diagrams st' = {5, 7} \<and>
          process_linked_diagrams 1 cycle_repo [cycle_D7] ?l st' = Some (Inr (?l, st'))" by blast
  from pe a4 have b: "\<exists>r st''. process_element 2 cycle_repo cycle_E1 (Some scenario_place_A) ?main =
      Some (Inr (r, st'')) \<and> {5} \<subseteq> visited_diagrams st''" by blast
  from ldo a5 have c: "\<exists>els' st3. linked_diagram_objects 1 cycle_repo (DiagramObjects cycle_D7) [] ?seen =
      Some (Inr (els', st3)) \<and> {5, 7} \<subseteq> visited_diagrams st3" by blast
  from run listed 1 2 a b c show ?thesis by simp
qed

text \<open>
  Claim C7: a root package with no diagram yields the graph with no nodes and no edges, at
  every depth and without an error.
\<close>

theorem empty_package_empty_graph:
  "Package_Diagrams pkg = [] \<Longrightarrow>
     generate_graph_from_package n pkg repo = Some (Inr \<lparr>nodes = [], edges = []\<rparr>)"
  by (simp add: generate_graph_from_package_def process_main_diagram_def init_state_def)

theorem empty_package_empty_graph_witness:
  "Package_Diagrams empty_P = [] \<and>
   generate_graph_from_package 0 empty_P scenario_repo = Some (Inr \<lparr>nodes = [], edges = []\<rparr>)"
proof -
  have h: "Package_Diagrams empty_P = []" by (simp add: empty_P_def)
  from empty_package_empty_graph[OF h, of 0 scenario_repo] h show ?thesis by simp
qed



text \<open>
  Claim C10, as stated: edges are emitted for every connector owned by a visited element.
  This fails for an element that is visited as an external classifier: the traversal marks
  it visited and never reads its connectors. In the specification's second scenario X (9)
  is visited and is a node of the graph, its connector from 9 to 3 of type Dependency
  resolves at both ends, and the only edge of the graph is the edge of C's connector.
\<close>

theorem connectors_of_visited_counterexample:
  "generate_graph_from_package 1 typed_P typed_repo =
     Some (Inr \<lparr>nodes = [typed_node_X, typed_node_C,
                         PackageNode ''P'' ''Package'' [DiagramNode ''D5'' ''D'' ''Diagram'' [typed_node_C]]],
                edges = [typed_edge]\<rparr>) \<and>
   map_option (map_sum id visited_elements) (process_main_diagram 1 typed_repo typed_P init_state) =
     Some (Inr {3, 9}) \<and>
   node_element_id typed_node_X = Some (ElementID typed_X) \<and>
   Connectors typed_X = [\<lparr>ClientID = 9, SupplierID = 3, Connector_Type = ''Dependency'',
                           Connector_Name = ''''\<rparr>] \<and>
   connector_edge typed_repo \<lparr>ClientID = 9, SupplierID = 3, Connector_Type = ''Dependency'',
                               Connector_Name = ''''\<rparr> = Some typed_edge_X \<and>
   edge_triple typed_edge_X \<notin> edge_triple ` set [typed_edge]"
  by (auto simp add: typed_defs traversal_defs connector_edge_def edge_triple_def)

text \<open>
  Claim C10, amended: edges are emitted for the connectors of every element that
  \<^verbatim>\<open>process_element\<close> expands, that is of every element behind an element node of the
  graph, whether or not the other end of the connector is ever visited: every such
  connector resolves at both ends, and the triple of its edge (source, target, type) is the
  triple of an edge of the graph, the connector's own edge unless an earlier connector with
  the same triple was emitted first. And for some model source the graph holds an edge whose
  source is the identifier of no node.
\<close>

theorem edges_of_element_nodes:
  "(generate_graph_from_package n pkg repo = Some (Inr g) \<and>
    ElementNode i nm ty attrs linked pos \<in> set (nodes g) \<and>
    GetElementByID repo i = Some e \<and> c \<in> set (Connectors e) \<longrightarrow>
      (\<exists>ed. connector_edge repo c = Some ed \<and> edge_triple ed \<in> edge_triple ` set (edges g))) \<and>
   (\<exists>n pkg repo g ed.
      generate_graph_from_package n pkg repo = Some (Inr g) \<and> ed \<in> set (edges g) \<and>
      edge_from ed \<notin> set (node_ids (nodes g)))"
proof (intro conjI impI)
  assume "generate_graph_from_package n pkg repo = Some (Inr g) \<and>
    ElementNode i nm ty attrs linked pos \<in> set (nodes g) \<and>
    GetElementByID repo i = Some e \<and> c \<in> set (Connectors e)"
  then show "\<exists>ed. connector_edge repo c = Some ed \<and> edge_triple ed \<in> edge_triple ` set (edges g)"
    using element_node_connector_edge by blast
next
  have "generate_graph_from_package 1 only_B_P scenario_repo =
     Some (Inr \<lparr>nodes = [scenario_node_B, PackageNode ''P'' ''Package''
                            [DiagramNode ''D5'' ''D'' ''Diagram'' [scenario_node_B]]],
                edges = [scenario_edge]\<rparr>)"
    by (simp add: scenario_defs traversal_defs)
  moreover have "edge_from scenario_edge \<notin> set (node_ids [scenario_node_B, PackageNode ''P'' ''Package''
                            [DiagramNode ''D5'' ''D'' ''Diagram'' [scenario_node_B]]])"
    by (simp add: scenario_defs)
  ultimately show "\<exists>n pkg repo g ed.
      generate_graph_from_package n pkg repo = Some (Inr g) \<and> ed \<in> set (edges g) \<and>
      edge_from ed \<notin> set (node_ids (nodes g))"
    by (intro exI[of _ 1] exI[of _ only_B_P] exI[of _ scenario_repo] exI[of _ scenario_edge] exI) auto
qed

text \<open>
  The amended claim in the scenario's repository with a diagram that shows B only: B's
  connector from 1 to 2 yields its edge, and no node carries the identifier 1.
\<close>

theorem edges_of_element_nodes_witness:
  "generate_graph_from_package 1 only_B_P scenario_repo =
     Some (Inr \<lparr>nodes = [scenario_node_B, PackageNode ''P'' ''Package''
                            [DiagramNode ''D5'' ''D'' ''Diagram'' [scenario_node_B]]],
                edges = [scenario_edge]\<rparr>) \<and>
   GetElementByID scenario_repo 2 = Some scenario_B \<and>
   connector_edge scenario_repo \<lparr>ClientID = 1, SupplierID = 2, Connector_Type = ''Association'',
                                  Connector_Name = ''uses''\<rparr> = Some scenario_edge \<and>
   edge_triple scenario_edge \<in> edge_triple ` set [scenario_edge] \<and>
   edge_from scenario_edge \<notin> set (node_ids [scenario_node_B, PackageNode ''P'' ''Package''
                            [DiagramNode ''D5'' ''D'' ''Diagram'' [scenario_node_B]]])"
proof -
  let ?g = "\<lparr>nodes = [scenario_node_B, PackageNode ''P'' ''Package''
                            [DiagramNode ''D5'' ''D'' ''Diagram'' [scenario_node_B]]],
             edges = [scenario_edge]\<rparr>"
  let ?c = "\<lparr>ClientID = 1, SupplierID = 2, Connector_Type = ''Association'', Connector_Name = ''uses''\<rparr>"
  have run: "generate_graph_from_package 1 only_B_P scenario_repo = Some (Inr ?g)"
    by (simp add: scenario_defs traversal_defs)
  have nd: "ElementNode 2 ''B'' ''Class'' [] []
     (Some \<lparr>pos_left = Some 20, pos_right = Some 30, pos_top = Some 0, pos_bottom = Some (- 10)\<rparr>)
       \<in> set (nodes ?g)"
    by (simp add: scenario_defs)
  have look: "GetElementByID scenario_repo 2 = Some scenario_B"
    by (simp add: scenario_defs GetElementByID_def)
  have own: "?c \<in> set (Connectors scenario_B)" by (simp add: scenario_defs)
  have ce: "connector_edge scenario_repo ?c = Some scenario_edge"
    by (simp add: scenario_defs GetElementByID_def connector_edge_def)
  from edges_of_element_nodes[of 1 only_B_P scenario_repo ?g 2 "''B''" "''Class''" "[]" "[]"
      "Some \<lparr>pos_left = Some 20, pos_right = Some 30, pos_top = Some 0, pos_bottom = Some (- 10)\<rparr>"
      scenario_B ?c] run nd look own
  obtain ed where "connector_edge scenario_repo ?c = Some ed"
    "edge_triple ed \<in> edge_triple ` set (edges ?g)" by blast
  with ce have "edge_triple scenario_edge \<in> edge_triple ` set [scenario_edge]" by simp
  moreover have "edge_from scenario_edge \<notin> set (node_ids [scenario_node_B, PackageNode ''P'' ''Package''
                            [DiagramNode ''D5'' ''D'' ''Diagram'' [scenario_node_B]]])"
    by (simp add: scenario_defs)
  ultimately show ?thesis using run look ce by blast
qed

end
